theory Spec2Isabelle
  imports Complex_Main
begin

section \<open>Sky-localisation scatter script: the per-event pipeline of scripts/scatter.py\<close>

text \<open>
  The script is a single module-level batch loop.  Its numerical values are NumPy
  float64; they are idealised here as \<^typ>\<open>real\<close>, with the two places where IEEE
  arithmetic differs from field arithmetic in a way the control flow can see (division
  by zero and the comparison of a NaN) written out.  Every Python exception the modelled
  lines can raise is a value of \<open>error\<close>.
\<close>

datatype error = NameError | IndexError | KeyError | ValueError | IOError

type_synonym grid = "real list list"

subsection \<open>Credible regions: \<open>np.searchsorted\<close> (lines 233--235)\<close>

text \<open>
  \<open>np.searchsorted(a, v)\<close> with the default \<open>side='left'\<close> is a bisection of the index
  range \<open>[0, len(a))\<close>: the probe is \<open>mid = lo + (hi - lo) / 2\<close>; the lower bound moves
  past \<open>mid\<close> when \<open>a[mid] < v\<close>, otherwise the upper bound moves down to \<open>mid\<close>.
\<close>

function bisect_left :: "real list \<Rightarrow> real \<Rightarrow> nat \<Rightarrow> nat \<Rightarrow> nat" where
  "bisect_left a v lo hi =
     (if lo < hi
      then (let mid = lo + (hi - lo) div 2
            in if a ! mid < v then bisect_left a v (mid + 1) hi
               else bisect_left a v lo mid)
      else lo)"
  by pat_completeness auto
termination
  by (relation "measure (\<lambda>(a, v, lo, hi). hi - lo)") auto

definition searchsorted :: "real list \<Rightarrow> real \<Rightarrow> nat" where
  "searchsorted a v = bisect_left a v 0 (length a)"

text \<open>Lines 233--235 and the area \<open>prb68 * pix_size\<close> of lines 238, 253 and 304.\<close>

definition prb68 :: "real list \<Rightarrow> nat" where
  "prb68 cumul = searchsorted cumul (68 / 100)"

definition prb95 :: "real list \<Rightarrow> nat" where
  "prb95 cumul = searchsorted cumul (95 / 100)"

definition prb99 :: "real list \<Rightarrow> nat" where
  "prb99 cumul = searchsorted cumul (99 / 100)"

definition credible_area :: "real list \<Rightarrow> real \<Rightarrow> real \<Rightarrow> real" where
  "credible_area cumul target pix_size = real (searchsorted cumul target) * pix_size"

subsection \<open>Rotation into the sidereal frame and wraparound (lines 268--273)\<close>

definition to_degrees :: "real \<Rightarrow> real \<Rightarrow> real" where
  "to_degrees gmst x = ((- gmst + x) * pi / 12) * 180 / pi"

definition where_below :: "real \<Rightarrow> real" where
  "where_below x = (if x < - 180 then x + 360 else x)"

definition where_above :: "real \<Rightarrow> real" where
  "where_above x = (if x > 180 then x - 360 else x)"

definition wrap_deg :: "real \<Rightarrow> real" where
  "wrap_deg x = where_above (where_below x)"

definition rotate_grid :: "real \<Rightarrow> grid \<Rightarrow> grid" where
  "rotate_grid gmst ra = map (map (\<lambda>x. wrap_deg (to_degrees gmst x))) ra"

subsection \<open>The roll loop (lines 276--278)\<close>

text \<open>
  \<open>ra_int[0,0]\<close> and \<open>ra_int[0,-1]\<close>: the first and last entry of row 0; an empty grid
  or an empty row raises IndexError.
\<close>

definition grid_first :: "grid \<Rightarrow> real option" where
  "grid_first g = (case g of [] \<Rightarrow> None | r # _ \<Rightarrow> (case r of [] \<Rightarrow> None | x # _ \<Rightarrow> Some x))"

definition grid_last :: "grid \<Rightarrow> real option" where
  "grid_last g = (case g of [] \<Rightarrow> None | r # _ \<Rightarrow> (case r of [] \<Rightarrow> None | _ # _ \<Rightarrow> Some (last r)))"

text \<open>
  The loop test \<open>a / b > 0\<close> on float64 scalars.  NumPy does not raise on a zero
  denominator: \<open>a / 0\<close> is \<open>+inf\<close> for \<open>a > 0\<close>, \<open>-inf\<close> for \<open>a < 0\<close> and NaN for
  \<open>a = 0\<close>, and a NaN compares false.  So with a zero denominator the test holds exactly
  when the numerator is positive.  (Negative zero is not represented.)
\<close>

definition ratio_pos :: "real \<Rightarrow> real \<Rightarrow> bool" where
  "ratio_pos a b = (if b = 0 then 0 < a else 0 < a / b)"

text \<open>\<open>np.roll(g, -1, axis=1)\<close>: every row is rotated left by one column.\<close>

definition np_roll :: "grid \<Rightarrow> grid" where
  "np_roll g = map rotate1 g"

text \<open>
  The loop header of line 276: the test either raises (no entry \<open>[0,0]\<close>) or yields
  a truth value.
\<close>

definition roll_cond :: "grid \<Rightarrow> error + bool" where
  "roll_cond g =
     (case grid_first g of
        None \<Rightarrow> Inl IndexError
      | Some a \<Rightarrow>
          (case grid_last g of
             None \<Rightarrow> Inl IndexError
           | Some b \<Rightarrow> Inr (ratio_pos a b)))"

text \<open>
  The loop has no counter: it runs for as long as the test holds, rolling \<open>ra_int\<close> and
  \<open>prob_int\<close> together.  \<open>None\<close> is the run that never leaves the loop.
\<close>

partial_function (option) roll_loop :: "grid \<times> grid \<Rightarrow> (error + grid \<times> grid) option" where
  "roll_loop s =
     (case roll_cond (fst s) of
        Inl e \<Rightarrow> Some (Inl e)
      | Inr c \<Rightarrow>
          if c then roll_loop (np_roll (fst s), np_roll (snd s))
          else Some (Inr s))"

subsection \<open>Strings: the \<open>str\<close> methods and the regular expression the script uses\<close>

text \<open>\<open>s.split(c)\<close> for a one-character separator: never empty, \<open>"".split(c) = [""]\<close>.\<close>

fun split_on :: "char \<Rightarrow> string \<Rightarrow> string list" where
  "split_on c [] = [[]]"
| "split_on c (x # xs) =
     (if x = c then [] # split_on c xs
      else (case split_on c xs of [] \<Rightarrow> [[x]] | w # ws \<Rightarrow> (x # w) # ws))"

text \<open>\<open>sep.join(parts)\<close>.\<close>

fun join :: "string \<Rightarrow> string list \<Rightarrow> string" where
  "join sep [] = []"
| "join sep [w] = w"
| "join sep (w # v # ws) = w @ sep @ join sep (v # ws)"

definition is_space :: "char \<Rightarrow> bool" where
  "is_space c \<longleftrightarrow> c \<in> {CHR '' '', CHR 0x09, CHR 0x0A, CHR 0x0B, CHR 0x0C, CHR 0x0D}"

definition strip :: "string \<Rightarrow> string" where
  "strip s = rev (dropWhile is_space (rev (dropWhile is_space s)))"

definition endswith :: "string \<Rightarrow> string \<Rightarrow> bool" where
  "endswith s suf \<longleftrightarrow> length suf \<le> length s \<and> drop (length s - length suf) s = suf"

text \<open>
  \<open>s.replace(old, new)\<close> for a non-empty \<open>old\<close>: every occurrence, left to right, without
  overlap.  (The script calls it with \<open>old = "fits.gz"\<close> only.)
\<close>

function str_replace :: "string \<Rightarrow> string \<Rightarrow> string \<Rightarrow> string" where
  "str_replace old new s =
     (if old = [] \<or> s = [] then s
      else if take (length old) s = old then new @ str_replace old new (drop (length old) s)
      else hd s # str_replace old new (tl s))"
  by pat_completeness auto
termination
  by (relation "measure (\<lambda>(old, new, s). length s)") auto

definition is_digit :: "char \<Rightarrow> bool" where
  "is_digit c \<longleftrightarrow> (48 :: nat) \<le> of_char c \<and> of_char c \<le> (57 :: nat)"

definition int_of_digits :: "string \<Rightarrow> nat" where
  "int_of_digits ds = foldl (\<lambda>n c. 10 * n + (of_char c - 48)) (0 :: nat) ds"

text \<open>
  \<open>get_event_num\<close> (lines 23--26): \<open>re.findall("([0-9]+)", fname)\<close> lists the maximal runs
  of digits; \<open>m[-1]\<close> is the last one and raises IndexError when there is none.
\<close>

definition last_digit_run :: "string \<Rightarrow> string" where
  "last_digit_run s = rev (takeWhile is_digit (dropWhile (\<lambda>c. \<not> is_digit c) (rev s)))"

definition get_event_num :: "string \<Rightarrow> error + nat" where
  "get_event_num fname =
     (if last_digit_run fname = [] then Inl IndexError
      else Inr (int_of_digits (last_digit_run fname)))"

subsection \<open>Colour specifications (lines 45--85)\<close>

text \<open>
  A \<open>Plottable\<close>: the colour or colour-map name, the quantity, and the normalisation
  \<open>(vmin, vmax)\<close>, which is set exactly when \<open>plt.get_cmap\<close> accepted the name (then
  \<open>colors\<close> holds the colour map, otherwise it stays a string).
\<close>

record plottable =
  p_colors :: string
  p_quant :: "string option"
  p_norm :: "(real \<times> real) option"

datatype color = ColorName string | ColorMapped string real

definition scales :: "string option \<Rightarrow> (real \<times> real) option" where
  "scales q =
     (if q = Some ''snr'' then Some (10, 20)
      else if q = Some ''error_region'' then Some (0, 64)
      else if q = None then Some (0, 64)
      else None)"

text \<open>
  The constructor with \<open>_init_cmaps\<close>: the ValueError of an unknown colour-map name is
  caught; the KeyError of a quantity that \<open>_scales\<close> does not list is not.
\<close>

definition Plottable :: "(string \<Rightarrow> bool) \<Rightarrow> string \<Rightarrow> string option \<Rightarrow> error + plottable" where
  "Plottable get_cmap colors quant =
     (if get_cmap colors
      then (case scales quant of
              None \<Rightarrow> Inl KeyError
            | Some n \<Rightarrow> Inr \<lparr>p_colors = colors, p_quant = quant, p_norm = Some n\<rparr>)
      else Inr \<lparr>p_colors = colors, p_quant = quant, p_norm = None\<rparr>)"

text \<open>\<open>__call__\<close>: the string itself, or the colour map at the normalised value.\<close>

definition plottable_call :: "plottable \<Rightarrow> real \<Rightarrow> color" where
  "plottable_call p v =
     (case p_norm p of
        None \<Rightarrow> ColorName (p_colors p)
      | Some (vmin, vmax) \<Rightarrow> ColorMapped (p_colors p) ((v - vmin) / (vmax - vmin)))"

fun parse_colorspecs ::
  "(string \<Rightarrow> bool) \<Rightarrow> string list \<Rightarrow> (string \<rightharpoonup> plottable) \<Rightarrow> error + (string \<rightharpoonup> plottable)" where
  "parse_colorspecs get_cmap [] out = Inr out"
| "parse_colorspecs get_cmap (ps # rest) out =
     (case split_on CHR ''='' ps of
        [label, cmap] \<Rightarrow>
          (case (case split_on CHR '','' cmap of
                   [quant, cm] \<Rightarrow> Plottable get_cmap cm (Some quant)
                 | _ \<Rightarrow> Plottable get_cmap cmap None) of
             Inl e \<Rightarrow> Inl e
           | Inr p \<Rightarrow> parse_colorspecs get_cmap rest (out(label \<mapsto> p)))
      | _ \<Rightarrow> Inl ValueError)"

subsection \<open>The collaborators and the state of a run\<close>

text \<open>
  \<open>create_table\<close> (skyutils) gives the table \<open>sky_data\<close> with its columns and the map
  \<open>smap\<close>.
\<close>

record sky_table =
  sd_cumul :: "real list"
  sd_prob :: "real list"
  sd_ra :: "real list"
  sd_dec :: "real list"
  sd_smap :: "real list"

text \<open>
  What the script calls and reads but does not define: the injection table (absent
  when \<open>--inj-xml\<close> is not given, so that the name \<open>inj\<close> is unbound), skyutils, healpy
  (\<open>nside2pixarea(npix2nside(n), degrees=True)\<close>, which rejects an \<open>n\<close> that is no pixel
  count), the text of the SNR files, Python's \<open>float\<close>, \<open>plt.get_cmap\<close>, the map
  projection \<open>m\<close>, \<open>glob.glob\<close>, the fourth component of
  \<open>net_antenna_pattern_point(..., norm=True)\<close>, and the directories that exist and can
  be written to (the script creates none).
\<close>

record env =
  inj_times :: "real list option"
  create_table :: "string \<Rightarrow> sky_table"
  pixarea :: "nat \<Rightarrow> real option"
  snr_lines :: "string \<Rightarrow> string list option"
  py_float :: "string \<Rightarrow> real option"
  get_cmap :: "string \<Rightarrow> bool"
  interpolate_healpix_map :: "sky_table \<Rightarrow> grid \<times> grid \<times> grid"
  proj :: "grid \<Rightarrow> grid \<Rightarrow> grid \<times> grid"
  glob :: "string \<Rightarrow> string list"
  isdir :: "string \<Rightarrow> bool"
  network :: "string list"
  net_antenna_pattern_point :: "real \<Rightarrow> string list \<Rightarrow> real \<Rightarrow> real \<Rightarrow> real"

datatype file_content = Npz "grid \<times> grid \<times> grid" | OtherFile

text \<open>
  The module-level variables the loop writes, the files on disk, and three logs: the
  events reported as too large, the contours drawn, and the files the interpolation
  kernel was called for.
\<close>

record run_state =
  config_information :: "string \<Rightarrow> (real \<times> real \<times> real) list"
  linecolor :: "color option"
  disk :: "string \<rightharpoonup> file_content"
  interp_calls :: "string list"
  contours :: "(real \<times> color) list"
  flagged :: "nat list"

subsection \<open>The stages of one event (lines 220--304)\<close>

definition np_mod :: "real \<Rightarrow> real \<Rightarrow> real" where
  "np_mod x m = x - m * of_int \<lfloor>x / m\<rfloor>"

text \<open>Lines 220--231: event number, sidereal hours, table and pixel area.\<close>

definition vital_statistics :: "env \<Rightarrow> string \<Rightarrow> error + (nat \<times> real \<times> sky_table \<times> real)" where
  "vital_statistics e filename =
     (case get_event_num filename of
        Inl err \<Rightarrow> Inl err
      | Inr enum \<Rightarrow>
          (case inj_times e of
             None \<Rightarrow> Inl NameError
           | Some tab \<Rightarrow>
               if enum < length tab
               then (let gmst = np_mod (tab ! enum / 3600) 24;
                         tbl = create_table e filename
                     in case pixarea e (length (sd_smap tbl)) of
                          None \<Rightarrow> Inl ValueError
                        | Some pix_size \<Rightarrow> Inr (enum, gmst, tbl, pix_size))
               else Inl IndexError))"

text \<open>Line 242: the SNR file sits two directories above the map file.\<close>

definition snr_path :: "string \<Rightarrow> string" where
  "snr_path filename = join ''/'' (butlast (butlast (split_on CHR ''/'' filename))) @ ''/snr.txt''"

text \<open>
  Lines 243--246: every line must split at \<open>:\<close> into exactly two parts (the \<open>dict\<close>
  constructor raises ValueError otherwise), a later line overrides an earlier one with
  the same key, and every value must be a float.
\<close>

fun snr_pairs :: "string list \<Rightarrow> error + (string \<times> string) list" where
  "snr_pairs [] = Inr []"
| "snr_pairs (l # ls) =
     (case map strip (split_on CHR '':'' l) of
        [k, v] \<Rightarrow> (case snr_pairs ls of Inl err \<Rightarrow> Inl err | Inr kvs \<Rightarrow> Inr ((k, v) # kvs))
      | _ \<Rightarrow> Inl ValueError)"

definition read_snr :: "env \<Rightarrow> string \<Rightarrow> error + (string \<rightharpoonup> real)" where
  "read_snr e filename =
     (case snr_lines e (snr_path filename) of
        None \<Rightarrow> Inl IOError
      | Some ls \<Rightarrow>
          (case snr_pairs ls of
             Inl err \<Rightarrow> Inl err
           | Inr kvs \<Rightarrow>
               (let d = map_of (rev kvs)
                in if list_all (\<lambda>k. case d k of None \<Rightarrow> True | Some v \<Rightarrow> py_float e v \<noteq> None)
                        (map fst kvs)
                   then Inr (\<lambda>k. case d k of None \<Rightarrow> None | Some v \<Rightarrow> py_float e v)
                   else Inl ValueError)))"

text \<open>
  Lines 251--255: \<open>linecolor\<close> is assigned under the two quantities only; under any other
  it keeps whatever an earlier event left in it.
\<close>

definition select_linecolor :: "plottable \<Rightarrow> real \<Rightarrow> real \<Rightarrow> color option \<Rightarrow> color option" where
  "select_linecolor cmap area net lc =
     (if p_quant cmap = Some ''error_region'' then Some (plottable_call cmap area)
      else if p_quant cmap = Some ''snr'' then Some (plottable_call cmap net)
      else lc)"

text \<open>
  Lines 257--264.  \<open>np.savez(name, ...)\<close> appends \<open>.npz\<close> to a name that does not end in
  it, and raises IOError when the directory the name lies in does not exist (the kernel
  has run by then, and nothing is stored).  \<open>np.load\<close> of a file that is no archive
  raises.
\<close>

definition parent_dir :: "string \<Rightarrow> string" where
  "parent_dir name = join ''/'' (butlast (split_on CHR ''/'' name))"

definition cache_fname :: "string \<Rightarrow> string" where
  "cache_fname filename = str_replace ''fits.gz'' ''intrp.npz'' filename"

definition savez_path :: "string \<Rightarrow> string" where
  "savez_path name = (if endswith name ''.npz'' then name else name @ ''.npz'')"

definition get_or_compute ::
  "env \<Rightarrow> run_state \<Rightarrow> string \<Rightarrow> sky_table \<Rightarrow> error + ((grid \<times> grid \<times> grid) \<times> run_state)" where
  "get_or_compute e st filename tbl =
     (case disk st (cache_fname filename) of
        Some (Npz t) \<Rightarrow> Inr (t, st)
      | Some OtherFile \<Rightarrow> Inl IOError
      | None \<Rightarrow>
          (let t = interpolate_healpix_map e tbl;
               target = savez_path (cache_fname filename)
           in if isdir e (parent_dir target)
              then Inr (t, st\<lparr>disk := (disk st)(target \<mapsto> Npz t),
                             interp_calls := interp_calls st @ [filename]\<rparr>)
              else Inl IOError))"

text \<open>
  Line 286: \<open>np.argmax\<close> is the first index of the largest entry of the flattened
  array (ValueError on an empty one); \<open>np.unravel_index\<close> turns it into row and column.
\<close>

fun argmax_from :: "real list \<Rightarrow> nat \<Rightarrow> nat \<Rightarrow> real \<Rightarrow> nat" where
  "argmax_from [] i best_i best = best_i"
| "argmax_from (x # xs) i best_i best =
     (if best < x then argmax_from xs (Suc i) i x else argmax_from xs (Suc i) best_i best)"

definition argmax :: "real list \<Rightarrow> nat option" where
  "argmax xs = (case xs of [] \<Rightarrow> None | x # rest \<Rightarrow> Some (argmax_from rest 1 0 x))"

definition unravel_index :: "nat \<Rightarrow> grid \<Rightarrow> nat \<times> nat" where
  "unravel_index k g = (k div length (hd g), k mod length (hd g))"


definition grid_at :: "grid \<Rightarrow> nat \<times> nat \<Rightarrow> real option" where
  "grid_at g ij =
     (if fst ij < length g \<and> snd ij < length (g ! fst ij) then Some (g ! fst ij ! snd ij)
      else None)"

text \<open>
  Lines 279--304, after the roll loop: the sign flip, the projection, the contour at
  level \<open>sky_data["prob"][prb68]\<close> in the colour \<open>linecolor\<close> (the level is evaluated
  first, then the name \<open>linecolor\<close>), the peak and the record.
\<close>

definition draw_and_emit ::
  "env \<Rightarrow> string \<Rightarrow> run_state \<Rightarrow> real \<Rightarrow> sky_table \<Rightarrow> real \<Rightarrow> real \<Rightarrow> grid \<times> grid \<times> grid
     \<Rightarrow> error + run_state" where
  "draw_and_emit e label st gmst tbl area net t =
     (case t of (ra_r, dec_int, prob_r) \<Rightarrow>
        (case proj e (map (map uminus) ra_r) dec_int of (ra_p, dec_p) \<Rightarrow>
           if prb68 (sd_cumul tbl) < length (sd_prob tbl)
           then (case linecolor st of
                   None \<Rightarrow> Inl NameError
                 | Some c \<Rightarrow>
                     (let st4 = st\<lparr>contours := contours st @ [(sd_prob tbl ! prb68 (sd_cumul tbl), c)]\<rparr>
                      in case argmax (concat prob_r) of
                           None \<Rightarrow> Inl ValueError
                         | Some k \<Rightarrow>
                             (let max_indices = unravel_index k prob_r
                              in case grid_at ra_p max_indices of
                                   None \<Rightarrow> Inl IndexError
                                 | Some ra_max \<Rightarrow>
                                     (case grid_at dec_p max_indices of
                                        None \<Rightarrow> Inl IndexError
                                      | Some dec_max \<Rightarrow>
                                          Inr (st4\<lparr>config_information :=
                                                 (config_information st4)
                                                   (label := config_information st4 label @
                                                      [(area, net,
                                                        net_antenna_pattern_point e gmst (network e)
                                                          ra_max dec_max)])\<rparr>)))))
           else Inl IndexError))"

text \<open>
  One pass of the body of the file loop.  The size check of lines 238--241 only prints
  (its \<open>continue\<close> is commented out).  \<open>None\<close> is an event whose roll loop never ends.
\<close>

definition process_event ::
  "env \<Rightarrow> (string \<rightharpoonup> plottable) \<Rightarrow> string \<Rightarrow> run_state \<Rightarrow> string \<Rightarrow> (error + run_state) option" where
  "process_event e cspecs label st filename =
     (case vital_statistics e filename of
        Inl err \<Rightarrow> Some (Inl err)
      | Inr (enum, gmst, tbl, pix_size) \<Rightarrow>
          (let area = real (prb68 (sd_cumul tbl)) * pix_size;
               st1 = (if area > 64 then st\<lparr>flagged := flagged st @ [enum]\<rparr> else st)
           in case read_snr e filename of
                Inl err \<Rightarrow> Some (Inl err)
              | Inr snrs \<Rightarrow>
                  (case snrs ''Network'' of
                     None \<Rightarrow> Some (Inl KeyError)
                   | Some net \<Rightarrow>
                       (case cspecs label of
                          None \<Rightarrow> Some (Inl KeyError)
                        | Some cmap \<Rightarrow>
                            (let st2 = st1\<lparr>linecolor := select_linecolor cmap area net (linecolor st1)\<rparr>
                             in case get_or_compute e st2 filename tbl of
                                  Inl err \<Rightarrow> Some (Inl err)
                                | Inr (t, st3) \<Rightarrow>
                                    (case t of (ra_int, dec_int, prob_int) \<Rightarrow>
                                       (case roll_loop (rotate_grid gmst ra_int, prob_int) of
                                          None \<Rightarrow> None
                                        | Some (Inl err) \<Rightarrow> Some (Inl err)
                                        | Some (Inr (ra_r, prob_r)) \<Rightarrow>
                                            Some (draw_and_emit e label st3 gmst tbl area net
                                                    (ra_r, dec_int, prob_r)))))))))"

subsection \<open>The batch (lines 205--219)\<close>

text \<open>No statement of the loops catches an exception: the first one ends the run.\<close>

fun run_files ::
  "env \<Rightarrow> (string \<rightharpoonup> plottable) \<Rightarrow> string \<Rightarrow> run_state \<Rightarrow> string list \<Rightarrow> (error + run_state) option" where
  "run_files e cspecs label st [] = Some (Inr st)"
| "run_files e cspecs label st (filename # rest) =
     (case process_event e cspecs label st filename of
        None \<Rightarrow> None
      | Some (Inl err) \<Rightarrow> Some (Inl err)
      | Some (Inr st') \<Rightarrow> run_files e cspecs label st' rest)"

text \<open>
  \<open>pspecs\<close> is the list of the (label, glob pattern) items in the order the dictionary
  of \<open>parse_pathspecs\<close> yields them.
\<close>

fun run_labels ::
  "env \<Rightarrow> (string \<rightharpoonup> plottable) \<Rightarrow> run_state \<Rightarrow> (string \<times> string) list \<Rightarrow> (error + run_state) option" where
  "run_labels e cspecs st [] = Some (Inr st)"
| "run_labels e cspecs st ((label, globpat) # rest) =
     (case run_files e cspecs label st (glob e globpat) of
        None \<Rightarrow> None
      | Some (Inl err) \<Rightarrow> Some (Inl err)
      | Some (Inr st') \<Rightarrow> run_labels e cspecs st' rest)"

definition initial_state :: "(string \<rightharpoonup> file_content) \<Rightarrow> run_state" where
  "initial_state d =
     \<lparr>config_information = (\<lambda>_. []), linecolor = None, disk = d, interp_calls = [],
      contours = [], flagged = []\<rparr>"

definition run_batch ::
  "env \<Rightarrow> string list \<Rightarrow> (string \<times> string) list \<Rightarrow> (string \<rightharpoonup> file_content) \<Rightarrow> (error + run_state) option" where
  "run_batch e colorspecs pspecs d =
     (case parse_colorspecs (get_cmap e) colorspecs Map.empty of
        Inl err \<Rightarrow> Some (Inl err)
      | Inr cspecs \<Rightarrow> run_labels e cspecs (initial_state d) pspecs)"

subsection \<open>A small run: twelve pixels, three map files, two labels\<close>

text \<open>
  The inputs the witnesses and counterexamples below are evaluated on.  The injection
  table has three rows; \<open>a/1\<close> and \<open>b/1\<close> hold an SNR file, \<open>a/2\<close> does not; no name is a
  colour map but \<open>viridis\<close>; the directories are those of the three map files.  In
  \<open>ex_env\<close> the projection is the identity; in \<open>ex_env_scaled\<close> it multiplies by 100000,
  as a projection to map coordinates in metres does; \<open>ex_env_snr ls\<close> reads the lines \<open>ls\<close>
  as every SNR file.
\<close>

definition ex_table :: sky_table where
  "ex_table =
     \<lparr>sd_cumul = [1/2, 4/5, 19/20, 1, 1, 1, 1, 1, 1, 1, 1, 1],
      sd_prob = [1/2, 3/10, 3/20, 1/20, 0, 0, 0, 0, 0, 0, 0, 0],
      sd_ra = [0, 6, 12, 18, 0, 6, 12, 18, 0, 6, 12, 18],
      sd_dec = [- 45, - 45, - 45, - 45, 0, 0, 0, 0, 45, 45, 45, 45],
      sd_smap = [0, 0, 1/2, 0, 3/10, 0, 0, 3/20, 0, 1/20, 0, 0]\<rparr>"

definition ex_env :: env where
  "ex_env =
     \<lparr>inj_times = Some [0, 105600, 43200],
      create_table = (\<lambda>_. ex_table),
      pixarea = (\<lambda>n. if n = 12 then Some 3438 else None),
      snr_lines = (\<lambda>p. if p = ''a/1/snr.txt'' \<or> p = ''b/1/snr.txt''
                         then Some [''H1: 8.5'', ''Network: 12.0''] else None),
      py_float = (\<lambda>s. if s = ''8.5'' then Some (17 / 2) else if s = ''12.0'' then Some 12 else None),
      get_cmap = (\<lambda>s. s = ''viridis''),
      interpolate_healpix_map =
        (\<lambda>_. ([[0, 6, 12, 18], [0, 6, 12, 18]],
              [[- 45, - 45, - 45, - 45], [45, 45, 45, 45]],
              [[1, 2, 3, 4], [5, 9, 7, 8]])),
      proj = (\<lambda>a d. (a, d)),
      glob = (\<lambda>p. if p = ''a/*'' then [''a/2/p/m2.fits.gz'', ''a/1/p/m1.fits.gz'']
                    else if p = ''a/1/*'' then [''a/1/p/m1.fits.gz'']
                    else if p = ''b/*'' then [''b/1/p/n1.fits.gz''] else []),
      isdir = (\<lambda>d. d = ''a/1/p'' \<or> d = ''a/2/p'' \<or> d = ''b/1/p''),
      network = [''H1'', ''L1''],
      net_antenna_pattern_point = (\<lambda>t n a d. t + a + d)\<rparr>"

definition ex_env_scaled :: env where
  "ex_env_scaled =
     ex_env\<lparr>proj := (\<lambda>a d. (map (map (\<lambda>x. 100000 * x)) a, map (map (\<lambda>y. 100000 * y)) d))\<rparr>"

definition ex_env_snr :: "string list \<Rightarrow> env" where
  "ex_env_snr ls = ex_env\<lparr>snr_lines := (\<lambda>_. Some ls)\<rparr>"

definition ex_disk :: "string \<rightharpoonup> file_content" where
  "ex_disk = [''a/1/p/m1.fits.gz'' \<mapsto> OtherFile, ''a/2/p/m2.fits.gz'' \<mapsto> OtherFile,
              ''b/1/p/n1.fits.gz'' \<mapsto> OtherFile]"

definition ex_cspecs :: "string \<rightharpoonup> plottable" where
  "ex_cspecs = [''A'' \<mapsto> \<lparr>p_colors = ''red'', p_quant = Some ''snr'', p_norm = None\<rparr>,
                ''B'' \<mapsto> \<lparr>p_colors = ''yellow'', p_quant = None, p_norm = None\<rparr>]"

section \<open>Properties\<close>

subsection \<open>Bisection\<close>

declare bisect_left.simps [simp del]

lemma bisect_left_spec:
  "sorted a \<Longrightarrow> lo \<le> hi \<Longrightarrow> hi \<le> length a \<Longrightarrow> (\<forall>i<lo. a ! i < v) \<Longrightarrow>
   (\<forall>i. hi \<le> i \<and> i < length a \<longrightarrow> v \<le> a ! i) \<Longrightarrow>
   lo \<le> bisect_left a v lo hi \<and> bisect_left a v lo hi \<le> hi \<and>
   (\<forall>i<bisect_left a v lo hi. a ! i < v) \<and>
   (\<forall>i. bisect_left a v lo hi \<le> i \<and> i < length a \<longrightarrow> v \<le> a ! i)"
proof (induction a v lo hi rule: bisect_left.induct)
  case (1 a v lo hi)
  show ?case
  proof (cases "lo < hi")
    case False
    with "1.prems" show ?thesis by (subst (1 2 3 4) bisect_left.simps) simp
  next
    case True
    define mid where "mid = lo + (hi - lo) div 2"
    have mid: "lo \<le> mid" "mid < hi" using True by (auto simp: mid_def)
    show ?thesis
    proof (cases "a ! mid < v")
      case lt: True
      have below: "\<forall>i<mid + 1. a ! i < v"
      proof (intro allI impI)
        fix i assume "i < mid + 1"
        then have "i \<le> mid" by simp
        with "1.prems"(1,3) mid have "a ! i \<le> a ! mid"
          by (intro sorted_nth_mono) auto
        with lt show "a ! i < v" by simp
      qed
      have eq: "bisect_left a v lo hi = bisect_left a v (mid + 1) hi"
        using True lt by (subst bisect_left.simps) (simp add: mid_def Let_def)
      have "mid + 1 \<le> bisect_left a v (mid + 1) hi \<and> bisect_left a v (mid + 1) hi \<le> hi \<and>
        (\<forall>i<bisect_left a v (mid + 1) hi. a ! i < v) \<and>
        (\<forall>i. bisect_left a v (mid + 1) hi \<le> i \<and> i < length a \<longrightarrow> v \<le> a ! i)"
        using "1.IH"(1)[OF True mid_def lt "1.prems"(1) _ "1.prems"(3) below "1.prems"(5)] mid
        by simp
      with eq mid show ?thesis by simp
    next
      case ge: False
      have above: "\<forall>i. mid \<le> i \<and> i < length a \<longrightarrow> v \<le> a ! i"
      proof (intro allI impI)
        fix i assume "mid \<le> i \<and> i < length a"
        with "1.prems"(1) have "a ! mid \<le> a ! i"
          by (intro sorted_nth_mono) auto
        with ge show "v \<le> a ! i" by simp
      qed
      have eq: "bisect_left a v lo hi = bisect_left a v lo mid"
        using True ge by (subst bisect_left.simps) (simp add: mid_def Let_def)
      have "lo \<le> bisect_left a v lo mid \<and> bisect_left a v lo mid \<le> mid \<and>
        (\<forall>i<bisect_left a v lo mid. a ! i < v) \<and>
        (\<forall>i. bisect_left a v lo mid \<le> i \<and> i < length a \<longrightarrow> v \<le> a ! i)"
        using "1.IH"(2)[OF True mid_def ge "1.prems"(1) mid(1) _ "1.prems"(4) above] mid "1.prems"(3)
        by simp
      with eq mid show ?thesis by simp
    qed
  qed
qed

lemma searchsorted_spec:
  assumes "sorted a"
  shows "searchsorted a v \<le> length a"
    and "\<forall>i<searchsorted a v. a ! i < v"
    and "\<forall>i. searchsorted a v \<le> i \<and> i < length a \<longrightarrow> v \<le> a ! i"
  using bisect_left_spec[of a 0 "length a" v] assms unfolding searchsorted_def by auto

lemma searchsorted_mono:
  assumes "sorted a" "v \<le> w"
  shows "searchsorted a v \<le> searchsorted a w"
proof (rule ccontr)
  assume "\<not> ?thesis"
  then have lt: "searchsorted a w < searchsorted a v" by simp
  have "searchsorted a w < length a" using lt searchsorted_spec(1)[OF assms(1), of v] by simp
  then have "w \<le> a ! searchsorted a w" using searchsorted_spec(3)[OF assms(1), of w] by simp
  moreover have "a ! searchsorted a w < v" using searchsorted_spec(2)[OF assms(1), of v] lt by simp
  ultimately show False using assms(2) by simp
qed

text \<open>
  C5.  On a non-decreasing cumulative sequence the search returns the leftmost insertion
  point of the target mass: every rank before the result has cumulative probability below
  the target and every rank from the result on has reached it, so the result is the
  smallest rank that reaches the target whenever one does.  The reported area is that rank
  times the per-pixel area.
\<close>

theorem searchsorted_leftmost:
  assumes "sorted cumul"
  shows "searchsorted cumul target \<le> length cumul \<and>
         (\<forall>i<searchsorted cumul target. cumul ! i < target) \<and>
         (\<forall>i. searchsorted cumul target \<le> i \<and> i < length cumul \<longrightarrow> target \<le> cumul ! i) \<and>
         (\<forall>i<length cumul. target \<le> cumul ! i \<longrightarrow>
            searchsorted cumul target \<le> i \<and> target \<le> cumul ! searchsorted cumul target) \<and>
         credible_area cumul target pix_size = real (searchsorted cumul target) * pix_size"
proof -
  note sp = searchsorted_spec[OF assms, of target]
  have least: "searchsorted cumul target \<le> i \<and> target \<le> cumul ! searchsorted cumul target"
    if "i < length cumul" "target \<le> cumul ! i" for i
  proof -
    have le: "searchsorted cumul target \<le> i"
    proof (rule ccontr)
      assume "\<not> ?thesis"
      then have "cumul ! i < target" using sp(2) by simp
      with that(2) show False by simp
    qed
    with that(1) have "searchsorted cumul target < length cumul" by simp
    with sp(3) le show ?thesis by simp
  qed
  show ?thesis using sp least by (simp add: credible_area_def)
qed

theorem searchsorted_leftmost_witness:
  "sorted [1 / 10, 5 / 10, 7 / 10, 1 :: real] \<and>
   searchsorted [1 / 10, 5 / 10, 7 / 10, 1] (68 / 100) = 2 \<and>
   searchsorted [1 / 10, 5 / 10, 7 / 10, 1] (68 / 100) \<le> length [1 / 10, 5 / 10, 7 / 10, 1 :: real] \<and>
   credible_area [1 / 10, 5 / 10, 7 / 10, 1] (68 / 100) 3 = 6"
  using searchsorted_leftmost[of "[1 / 10, 5 / 10, 7 / 10, 1]" "68 / 100" 3]
  by (simp add: searchsorted_def bisect_left.simps)

text \<open>
  C7.  On a non-decreasing cumulative sequence, with a non-negative per-pixel area, the
  68\%, 95\% and 99\% areas are ordered and lie between 0 and the area of all the pixels
  of the sequence.
\<close>

theorem credible_areas_monotone:
  assumes "sorted cumul" and "0 \<le> pix_size"
  shows "0 \<le> real (prb68 cumul) * pix_size \<and>
         real (prb68 cumul) * pix_size \<le> real (prb95 cumul) * pix_size \<and>
         real (prb95 cumul) * pix_size \<le> real (prb99 cumul) * pix_size \<and>
         real (prb99 cumul) * pix_size \<le> real (length cumul) * pix_size"
proof -
  have a: "prb68 cumul \<le> prb95 cumul"
    unfolding prb68_def prb95_def by (rule searchsorted_mono[OF assms(1)]) simp
  have b: "prb95 cumul \<le> prb99 cumul"
    unfolding prb95_def prb99_def by (rule searchsorted_mono[OF assms(1)]) simp
  have c: "prb99 cumul \<le> length cumul"
    unfolding prb99_def by (rule searchsorted_spec(1)[OF assms(1)])
  show ?thesis using a b c assms(2) by (simp add: mult_right_mono)
qed

theorem credible_areas_monotone_witness:
  "sorted [1 / 10, 5 / 10, 7 / 10, 96 / 100, 1 :: real] \<and> (0 :: real) \<le> 3 \<and>
   real (prb68 [1 / 10, 5 / 10, 7 / 10, 96 / 100, 1]) * 3 = 6 \<and>
   real (prb95 [1 / 10, 5 / 10, 7 / 10, 96 / 100, 1]) * 3 = 9 \<and>
   real (prb99 [1 / 10, 5 / 10, 7 / 10, 96 / 100, 1]) * 3 = 12 \<and>
   real (prb99 [1 / 10, 5 / 10, 7 / 10, 96 / 100, 1]) * 3
     \<le> real (length [1 / 10, 5 / 10, 7 / 10, 96 / 100, 1 :: real]) * 3"
  using credible_areas_monotone[of "[1 / 10, 5 / 10, 7 / 10, 96 / 100, 1]" 3]
  by (simp add: prb68_def prb95_def prb99_def searchsorted_def bisect_left.simps)

subsection \<open>Wraparound\<close>

lemma to_degrees_eq: "to_degrees gmst x = 15 * (x - gmst)"
  by (simp add: to_degrees_def field_simps)

text \<open>
  C8 (as amended).  The wraparound adds 360 to every value below -180 and subtracts 360
  from every value above 180, and leaves the others alone.  Every value of
  \<open>[-540, 540]\<close> ends in the closed interval \<open>[-180, 180]\<close>; it ends in the half-open
  interval \<open>(-180, 180]\<close> unless it is -180 or -540.
\<close>

theorem wrap_deg_normalises:
  assumes "- 540 \<le> x" and "x \<le> 540"
  shows "(x < - 180 \<longrightarrow> wrap_deg x = x + 360) \<and>
         (180 < x \<longrightarrow> wrap_deg x = x - 360) \<and>
         (- 180 \<le> x \<and> x \<le> 180 \<longrightarrow> wrap_deg x = x) \<and>
         - 180 \<le> wrap_deg x \<and> wrap_deg x \<le> 180 \<and>
         (x \<noteq> - 180 \<and> x \<noteq> - 540 \<longrightarrow> - 180 < wrap_deg x)"
  using assms by (auto simp: wrap_deg_def where_below_def where_above_def)

theorem wrap_deg_normalises_witness:
  "(- 540 :: real) \<le> - 200 \<and> (- 200 :: real) \<le> 540 \<and> wrap_deg (- 200) = 160 \<and>
   wrap_deg 190 = - 170 \<and> - 180 \<le> wrap_deg (- 200) \<and> wrap_deg (- 200) \<le> 180"
  using wrap_deg_normalises[of "- 200"] wrap_deg_normalises[of 190] by simp

text \<open>
  The claim as stated fails at -180, which the wraparound leaves in place: an event at
  12 sidereal hours and a grid column at right ascension 0 give exactly that value.
\<close>

theorem wrap_deg_half_open_counterexample:
  "rotate_grid 12 [[0]] = [[- 180]] \<and> wrap_deg (- 180) = - 180 \<and>
   \<not> (- 180 < wrap_deg (- 180) \<and> wrap_deg (- 180) \<le> 180)"
  by (simp add: rotate_grid_def to_degrees_eq wrap_deg_def where_below_def where_above_def)

subsection \<open>The roll loop\<close>

lemma np_roll_funpow: "(np_roll ^^ k) g = map (rotate k) g"
  by (induction k) (simp_all add: np_roll_def rotate_def)

lemma roll_cond_row:
  "g \<noteq> [] \<Longrightarrow> hd g \<noteq> [] \<Longrightarrow> roll_cond g = Inr (ratio_pos (hd (hd g)) (last (hd g)))"
  by (cases g; cases "hd g") (auto simp: roll_cond_def grid_first_def grid_last_def)

lemma roll_cond_empty:
  "g = [] \<or> hd g = [] \<Longrightarrow> roll_cond g = Inl IndexError"
  by (cases g; cases "hd g") (auto simp: roll_cond_def grid_first_def grid_last_def)

lemma np_roll_nonempty:
  "g \<noteq> [] \<Longrightarrow> hd g \<noteq> [] \<Longrightarrow> np_roll g \<noteq> [] \<and> hd (np_roll g) \<noteq> []"
  by (cases g) (auto simp: np_roll_def)

lemma roll_loop_least:
  "roll_cond ((np_roll ^^ k) ra) = Inr False \<Longrightarrow>
   (\<forall>j<k. roll_cond ((np_roll ^^ j) ra) = Inr True) \<Longrightarrow>
   roll_loop (ra, prob) = Some (Inr ((np_roll ^^ k) ra, (np_roll ^^ k) prob))"
proof (induction k arbitrary: ra prob)
  case 0
  then show ?case by (subst roll_loop.simps) simp
next
  case (Suc k)
  have c0: "roll_cond ra = Inr True" using Suc.prems(2)[rule_format, of 0] by simp
  have stop: "roll_cond ((np_roll ^^ k) (np_roll ra)) = Inr False"
    using Suc.prems(1) by (simp add: funpow_swap1)
  have go: "\<forall>j<k. roll_cond ((np_roll ^^ j) (np_roll ra)) = Inr True"
  proof (intro allI impI)
    fix j assume "j < k"
    then show "roll_cond ((np_roll ^^ j) (np_roll ra)) = Inr True"
      using Suc.prems(2)[rule_format, of "Suc j"] by (simp add: funpow_swap1)
  qed
  have "roll_loop (ra, prob) = roll_loop (np_roll ra, np_roll prob)"
    using c0 by (subst roll_loop.simps) simp
  also have "\<dots> = Some (Inr ((np_roll ^^ k) (np_roll ra), (np_roll ^^ k) (np_roll prob)))"
    by (rule Suc.IH[OF stop go])
  finally show ?case by (simp add: funpow_swap1)
qed

lemma ratio_pos_numer: "ratio_pos a b \<Longrightarrow> a \<noteq> 0"
  by (auto simp: ratio_pos_def split: if_splits)

lemma ratio_pos_sign: "ratio_pos a b \<Longrightarrow> b \<noteq> 0 \<Longrightarrow> (0 < a \<longleftrightarrow> 0 < b)"
  by (auto simp: ratio_pos_def zero_less_divide_iff split: if_splits)

lemma not_ratio_pos_straddle:
  "\<not> ratio_pos a b \<Longrightarrow> (a \<le> 0 \<and> 0 \<le> b) \<or> (0 \<le> a \<and> b \<le> 0)"
  by (auto simp: ratio_pos_def zero_less_divide_iff not_less split: if_splits)

lemma hd_rotate_nth: "k < length r \<Longrightarrow> hd (rotate k r) = r ! k"
  by (cases "r = []") (simp_all add: hd_rotate_conv_nth)

lemma last_rotate_nth:
  assumes "0 < k" "k < length r"
  shows "last (rotate k r) = r ! (k - 1)"
proof -
  have ne: "rotate k r \<noteq> []" using assms by auto
  have "last (rotate k r) = rotate k r ! (length r - 1)"
    using ne by (simp add: last_conv_nth)
  also have "\<dots> = r ! ((k + (length r - 1)) mod length r)"
    using assms by (simp add: nth_rotate)
  also have "(k + (length r - 1)) mod length r = k - 1"
  proof -
    have "k + (length r - 1) = (k - 1) + length r" using assms by simp
    then have "(k + (length r - 1)) mod length r = (k - 1) mod length r" by simp
    then show ?thesis using assms by simp
  qed
  finally show ?thesis .
qed

text \<open>If the test holds at every one of the n cyclic positions, the row has one strict sign.\<close>

lemma all_rolls_same_sign:
  assumes ne: "r \<noteq> []"
    and all: "\<forall>k<length r. ratio_pos (hd (rotate k r)) (last (rotate k r))"
  shows "(\<forall>x\<in>set r. 0 < x) \<or> (\<forall>x\<in>set r. x < 0)"
proof -
  have nz: "r ! k \<noteq> 0" if "k < length r" for k
    using all[rule_format, OF that] that by (auto dest: ratio_pos_numer simp: hd_rotate_nth)
  have step: "(0 < r ! k) \<longleftrightarrow> (0 < r ! (k - 1))" if "0 < k" "k < length r" for k
  proof -
    have "ratio_pos (r ! k) (r ! (k - 1))"
      using all[rule_format, OF that(2)] that by (simp add: hd_rotate_nth last_rotate_nth)
    moreover have "r ! (k - 1) \<noteq> 0" using nz[of "k - 1"] that by simp
    ultimately show ?thesis by (rule ratio_pos_sign)
  qed
  have same: "k < length r \<Longrightarrow> (0 < r ! k) \<longleftrightarrow> (0 < r ! 0)" for k
  proof (induction k)
    case 0 show ?case by simp
  next
    case (Suc k)
    then show ?case using step[of "Suc k"] by simp
  qed
  show ?thesis
  proof (cases "0 < r ! 0")
    case True
    then have "\<forall>x\<in>set r. 0 < x" using same by (auto simp: in_set_conv_nth)
    then show ?thesis ..
  next
    case False
    have "\<forall>x\<in>set r. x < 0"
    proof
      fix x assume "x \<in> set r"
      then obtain k where k: "k < length r" "x = r ! k" by (auto simp: in_set_conv_nth)
      with same[of k] False nz[of k] show "x < 0" by auto
    qed
    then show ?thesis ..
  qed
qed

lemma roll_cond_funpow:
  assumes "ra \<noteq> []" "hd ra \<noteq> []"
  shows "roll_cond ((np_roll ^^ k) ra) = Inr (ratio_pos (hd (rotate k (hd ra))) (last (rotate k (hd ra))))"
proof -
  have "(np_roll ^^ k) ra \<noteq> []" "hd ((np_roll ^^ k) ra) = rotate k (hd ra)"
    using assms by (simp_all add: np_roll_funpow hd_map)
  moreover have "rotate k (hd ra) \<noteq> []" using assms by simp
  ultimately show ?thesis by (simp add: roll_cond_row)
qed

lemma exists_stop:
  assumes "ra \<noteq> []" "hd ra \<noteq> []" "\<exists>x\<in>set (hd ra). x \<le> 0" "\<exists>x\<in>set (hd ra). 0 \<le> x"
  shows "\<exists>k<length (hd ra). roll_cond ((np_roll ^^ k) ra) = Inr False"
proof (rule ccontr)
  assume "\<not> ?thesis"
  then have "\<forall>k<length (hd ra). ratio_pos (hd (rotate k (hd ra))) (last (rotate k (hd ra)))"
    using assms(1,2) by (simp add: roll_cond_funpow)
  from all_rolls_same_sign[OF assms(2) this] assms(3,4) show False by force
qed

lemma roll_cond_one_sign:
  assumes "g \<noteq> []" "hd g \<noteq> []" "(\<forall>x\<in>set (hd g). 0 < x) \<or> (\<forall>x\<in>set (hd g). x < 0)"
  shows "roll_cond g = Inr True"
proof -
  have "hd (hd g) \<in> set (hd g)" "last (hd g) \<in> set (hd g)" using assms(2) by simp_all
  with assms(3) have "ratio_pos (hd (hd g)) (last (hd g))"
    by (auto simp: ratio_pos_def zero_less_divide_iff)
  then show ?thesis using assms(1,2) by (simp add: roll_cond_row)
qed


text \<open>A row of one strict sign keeps the test true for ever: the loop has no exit.\<close>

lemma roll_loop_one_sign_aux:
  assumes "roll_loop s = Some y"
  shows "\<not> (fst s \<noteq> [] \<and> hd (fst s) \<noteq> [] \<and>
            ((\<forall>x\<in>set (hd (fst s)). 0 < x) \<or> (\<forall>x\<in>set (hd (fst s)). x < 0)))"
proof (rule roll_loop.raw_induct[where P = "\<lambda>s y. \<not> (fst s \<noteq> [] \<and> hd (fst s) \<noteq> [] \<and>
            ((\<forall>x\<in>set (hd (fst s)). 0 < x) \<or> (\<forall>x\<in>set (hd (fst s)). x < 0)))", OF _ assms])
  fix f :: "grid \<times> grid \<Rightarrow> (error + grid \<times> grid) option" and s y
  assume IH: "\<And>x y. f x = Some y \<Longrightarrow> \<not> (fst x \<noteq> [] \<and> hd (fst x) \<noteq> [] \<and>
            ((\<forall>a\<in>set (hd (fst x)). 0 < a) \<or> (\<forall>a\<in>set (hd (fst x)). a < 0)))"
    and body: "(case roll_cond (fst s) of Inl e \<Rightarrow> Some (Inl e)
        | Inr c \<Rightarrow> if c then f (np_roll (fst s), np_roll (snd s)) else Some (Inr s)) = Some y"
  show "\<not> (fst s \<noteq> [] \<and> hd (fst s) \<noteq> [] \<and>
            ((\<forall>x\<in>set (hd (fst s)). 0 < x) \<or> (\<forall>x\<in>set (hd (fst s)). x < 0)))"
  proof
    assume inv: "fst s \<noteq> [] \<and> hd (fst s) \<noteq> [] \<and>
            ((\<forall>x\<in>set (hd (fst s)). 0 < x) \<or> (\<forall>x\<in>set (hd (fst s)). x < 0))"
    then have "roll_cond (fst s) = Inr True"
      by (intro roll_cond_one_sign) auto
    with body have call: "f (np_roll (fst s), np_roll (snd s)) = Some y" by simp
    have "np_roll (fst s) \<noteq> [] \<and> hd (np_roll (fst s)) \<noteq> [] \<and>
       ((\<forall>x\<in>set (hd (np_roll (fst s))). 0 < x) \<or> (\<forall>x\<in>set (hd (np_roll (fst s))). x < 0))"
      using inv by (simp add: np_roll_def hd_map)
    with IH[OF call] show False by simp
  qed
qed

lemma roll_loop_one_sign:
  assumes "ra \<noteq> []" "hd ra \<noteq> []" "(\<forall>x\<in>set (hd ra). 0 < x) \<or> (\<forall>x\<in>set (hd ra). x < 0)"
  shows "roll_loop (ra, prob) = None"
proof (cases "roll_loop (ra, prob)")
  case (Some y)
  from roll_loop_one_sign_aux[OF this] assms show ?thesis by simp
qed simp

lemma roll_loop_exit:
  assumes "ra \<noteq> []" "hd ra \<noteq> []" "\<exists>x\<in>set (hd ra). x \<le> 0" "\<exists>x\<in>set (hd ra). 0 \<le> x"
  shows "\<exists>k<length (hd ra).
           (\<forall>j<k. roll_cond ((np_roll ^^ j) ra) = Inr True) \<and>
           roll_cond ((np_roll ^^ k) ra) = Inr False \<and>
           roll_loop (ra, prob) = Some (Inr ((np_roll ^^ k) ra, (np_roll ^^ k) prob)) \<and>
           (\<exists>a b. grid_first ((np_roll ^^ k) ra) = Some a \<and> grid_last ((np_roll ^^ k) ra) = Some b \<and>
                  ((a \<le> 0 \<and> 0 \<le> b) \<or> (0 \<le> a \<and> b \<le> 0)))"
proof -
  define P where "P k \<longleftrightarrow> roll_cond ((np_roll ^^ k) ra) = Inr False" for k
  from exists_stop[OF assms] obtain k0 where k0: "k0 < length (hd ra)" "P k0"
    by (auto simp: P_def)
  define k where "k = (LEAST k. P k)"
  have Pk: "P k" unfolding k_def using k0(2) by (rule LeastI)
  have kle: "k \<le> k0" unfolding k_def using k0(2) by (rule Least_le)
  have before: "\<forall>j<k. roll_cond ((np_roll ^^ j) ra) = Inr True"
  proof (intro allI impI)
    fix j assume "j < k"
    then have "\<not> P j" unfolding k_def by (rule not_less_Least)
    then show "roll_cond ((np_roll ^^ j) ra) = Inr True"
      using assms(1,2) by (simp add: P_def roll_cond_funpow)
  qed
  have res: "roll_loop (ra, prob) = Some (Inr ((np_roll ^^ k) ra, (np_roll ^^ k) prob))"
    using Pk before by (intro roll_loop_least) (simp_all add: P_def)
  let ?g = "(np_roll ^^ k) ra"
  have ne: "?g \<noteq> []" "hd ?g \<noteq> []" using assms(1,2) by (simp_all add: np_roll_funpow hd_map)
  then obtain a b where ab: "grid_first ?g = Some a" "grid_last ?g = Some b"
    by (cases ?g; cases "hd ?g") (auto simp: grid_first_def grid_last_def)
  then have "\<not> ratio_pos a b" using Pk by (simp add: P_def roll_cond_def)
  then have "(a \<le> 0 \<and> 0 \<le> b) \<or> (0 \<le> a \<and> b \<le> 0)" by (rule not_ratio_pos_straddle)
  with ab Pk before res kle k0(1) show ?thesis unfolding P_def by (intro exI[of _ k]) auto
qed

text \<open>A wrapped ramp of at least two columns holds both signs.\<close>

lemma wrapped_pair:
  "- 540 \<le> x \<Longrightarrow> x \<le> 180 \<Longrightarrow>
   (wrap_deg x \<le> 0 \<or> wrap_deg (x + 180) \<le> 0) \<and> (0 \<le> wrap_deg x \<or> 0 \<le> wrap_deg (x + 180))"
  by (auto simp: wrap_deg_def where_below_def where_above_def)

lemma wrapped_triple:
  "- 540 \<le> x \<Longrightarrow> x \<le> 180 \<Longrightarrow> 120 \<le> s \<Longrightarrow> s < 180 \<Longrightarrow>
   (wrap_deg x \<le> 0 \<or> wrap_deg (x + s) \<le> 0 \<or> wrap_deg (x + 2 * s) \<le> 0) \<and>
   (0 \<le> wrap_deg x \<or> 0 \<le> wrap_deg (x + s) \<or> 0 \<le> wrap_deg (x + 2 * s))"
  by (auto simp: wrap_deg_def where_below_def where_above_def)

lemma ramp_both_signs:
  fixes off :: real
  assumes n: "2 \<le> n" and off: "- 360 \<le> off" "off \<le> 360"
    and r: "r = map (\<lambda>j. wrap_deg (- 180 + 360 * real j / real n + off)) [0..<n]"
  shows "(\<exists>x\<in>set r. x \<le> 0) \<and> (\<exists>x\<in>set r. 0 \<le> x)"
proof -
  define f where "f j = wrap_deg (- 180 + 360 * real j / real n + off)" for j
  define x where "x = - 180 + off"
  have mem: "f j \<in> set r" if "j < n" for j
    using that by (auto simp: r f_def)
  have x: "- 540 \<le> x" "x \<le> 180" using off by (simp_all add: x_def)
  have f0: "f 0 = wrap_deg x" by (simp add: f_def x_def)
  show ?thesis
  proof (cases "even n")
    case True
    then obtain m where m: "n = 2 * m" by (elim evenE)
    with n have m1: "1 \<le> m" by simp
    have "360 * real m / real n = 180" using m m1 by simp
    then have "- 180 + 360 * real m / real n + off = x + 180" by (simp add: x_def)
    then have fm: "f m = wrap_deg (x + 180)" by (simp only: f_def)
    have "0 < n" "m < n" using m m1 by simp_all
    then have "f 0 \<in> set r" "f m \<in> set r" by (simp_all add: mem)
    with wrapped_pair[OF x] f0 fm show ?thesis by metis
  next
    case False
    then obtain m where m: "n = 2 * m + 1" by (elim oddE)
    with n have m1: "1 \<le> m" by simp
    define s where "s = 360 * real m / real n"
    have np: "0 < real n" using n by simp
    have s1: "120 \<le> s"
    proof -
      have "120 * real n \<le> 360 * real m" using m m1 by simp
      then show ?thesis using np by (simp add: s_def pos_le_divide_eq)
    qed
    have s2: "s < 180"
    proof -
      have "360 * real m < 180 * real n" using m by simp
      then show ?thesis using np by (simp add: s_def pos_divide_less_eq)
    qed
    have "- 180 + 360 * real m / real n + off = x + s" by (simp add: x_def s_def)
    then have fm: "f m = wrap_deg (x + s)" by (simp only: f_def)
    have "- 180 + 360 * real (2 * m) / real n + off = x + 2 * s" by (simp add: x_def s_def)
    then have f2m: "f (2 * m) = wrap_deg (x + 2 * s)" by (simp only: f_def)
    have "0 < n" "m < n" "2 * m < n" using m m1 by simp_all
    then have "f 0 \<in> set r" "f m \<in> set r" "f (2 * m) \<in> set r" by (simp_all add: mem)
    with wrapped_triple[OF x s1 s2] f0 fm f2m show ?thesis by metis
  qed
qed

lemma upt4: "[0..<4] = [0, 1, 2, 3]"
  by code_simp

lemma ex_ramp:
  "[- 80, 10, 100, - 170 :: real] = map (\<lambda>j. wrap_deg (- 180 + 360 * real j / real (4::nat) + 100)) [0..<4]"
  by (simp add: upt4 wrap_deg_def where_below_def where_above_def)

text \<open>
  C1 (as amended).  The loop has no iteration cap and raises nothing when it runs long.
  When row 0 of the RA grid is non-empty and holds a value \<open>\<le> 0\<close> and a value \<open>\<ge> 0\<close>
  (as does every ramp of at least two columns over \<open>[-180, 180)\<close>, shifted by an offset
  of at most a full turn and wrapped), the loop leaves after \<open>k\<close> rolls with \<open>k\<close> smaller
  than the grid width: the test holds before each of the \<open>k\<close> rolls and fails after the
  last, both grids have been rolled \<open>k\<close> times, and the first and last entry of row 0
  then straddle zero in one of the two orders.
\<close>

theorem roll_loop_exits_within_width:
  assumes "ra \<noteq> []" "hd ra \<noteq> []"
    and "((\<exists>x\<in>set (hd ra). x \<le> 0) \<and> (\<exists>x\<in>set (hd ra). 0 \<le> x)) \<or>
         (\<exists>n off. 2 \<le> n \<and> - 360 \<le> off \<and> off \<le> 360 \<and>
            hd ra = map (\<lambda>j. wrap_deg (- 180 + 360 * real j / real n + off)) [0..<n])"
  shows "\<exists>k<length (hd ra).
           (\<forall>j<k. roll_cond ((np_roll ^^ j) ra) = Inr True) \<and>
           roll_cond ((np_roll ^^ k) ra) = Inr False \<and>
           roll_loop (ra, prob) = Some (Inr ((np_roll ^^ k) ra, (np_roll ^^ k) prob)) \<and>
           (\<exists>a b. grid_first ((np_roll ^^ k) ra) = Some a \<and> grid_last ((np_roll ^^ k) ra) = Some b \<and>
                  ((a \<le> 0 \<and> 0 \<le> b) \<or> (0 \<le> a \<and> b \<le> 0)))"
proof -
  have "(\<exists>x\<in>set (hd ra). x \<le> 0) \<and> (\<exists>x\<in>set (hd ra). 0 \<le> x)"
    using assms(3) ramp_both_signs by blast
  then show ?thesis
    using roll_loop_exit[OF assms(1,2), of prob] by blast
qed

theorem roll_loop_exits_within_width_witness:
  "[[- 80, 10, 100, - 170 :: real]] \<noteq> [] \<and> hd [[- 80, 10, 100, - 170 :: real]] \<noteq> [] \<and>
   hd [[- 80, 10, 100, - 170 :: real]] =
      map (\<lambda>j. wrap_deg (- 180 + 360 * real j / real (4::nat) + 100)) [0..<4] \<and>
   (\<exists>k<length (hd [[- 80, 10, 100, - 170 :: real]]).
      roll_loop ([[- 80, 10, 100, - 170]], [[1, 2, 3, 4]]) =
        Some (Inr ((np_roll ^^ k) [[- 80, 10, 100, - 170]], (np_roll ^^ k) [[1, 2, 3, 4]])))"
proof -
  have h: "((\<exists>x\<in>set (hd [[- 80, 10, 100, - 170 :: real]]). x \<le> 0) \<and>
            (\<exists>x\<in>set (hd [[- 80, 10, 100, - 170 :: real]]). 0 \<le> x)) \<or>
         (\<exists>n off. 2 \<le> n \<and> - 360 \<le> off \<and> off \<le> 360 \<and>
            hd [[- 80, 10, 100, - 170 :: real]] =
              map (\<lambda>j. wrap_deg (- 180 + 360 * real j / real n + off)) [0..<n])"
    using ex_ramp by (intro disjI2 exI[of _ 4] exI[of _ 100]) simp
  from roll_loop_exits_within_width[OF _ _ h, of "[[1, 2, 3, 4]]"] ex_ramp show ?thesis by auto
qed

text \<open>
  The claim as stated fails twice.  A four-column ramp over 24 hours at sidereal time
  16/3 h leaves the loop after one roll with \<open>ra[0,0] = 10 > 0 > -80 = ra[0,-1]\<close>, the
  opposite order to the one claimed, with no zero denominator in sight.  And on a row of
  positive values the loop neither stops after \<open>grid_width\<close> rolls nor raises: it never
  returns.
\<close>

theorem roll_loop_cap_counterexample:
  "rotate_grid (16 / 3) [[0, 6, 12, 18]] = [[- 80, 10, 100, - 170]] \<and>
   roll_loop ([[- 80, 10, 100, - 170]], [[1, 2, 3, 4]]) =
     Some (Inr ([[10, 100, - 170, - 80]], [[2, 3, 4, 1]])) \<and>
   grid_first [[10, 100, - 170, - 80]] = Some 10 \<and>
   grid_last [[10, 100, - 170, - 80]] = Some (- 80) \<and>
   \<not> ((10 :: real) \<le> 0 \<and> (0 :: real) \<le> - 80) \<and>
   roll_loop ([[1, 2]], [[3, 4]]) = None"
proof -
  have a: "rotate_grid (16 / 3) [[0, 6, 12, 18]] = [[- 80, 10, 100, - 170]]"
    by (simp add: rotate_grid_def to_degrees_eq wrap_deg_def where_below_def where_above_def)
  have b: "roll_loop ([[- 80, 10, 100, - 170]], [[1, 2, 3, 4]]) =
     Some (Inr ([[10, 100, - 170, - 80]], [[2, 3, 4, 1]]))"
    using roll_loop_least[of 1 "[[- 80, 10, 100, - 170]]" "[[1, 2, 3, 4]]"]
    by (simp add: roll_cond_def grid_first_def grid_last_def ratio_pos_def np_roll_def)
  have c: "roll_loop ([[1, 2]], [[3, 4]]) = None"
    by (rule roll_loop_one_sign) simp_all
  show ?thesis using a b c by (simp add: grid_first_def grid_last_def)
qed

lemma grid_last_mem:
  assumes "grid_last g = Some b"
  shows "g \<noteq> []" and "hd g \<noteq> []" and "b \<in> set (hd g)"
  using assms by (auto simp: grid_last_def split: list.splits)

text \<open>
  C9 (as amended).  The test is false on entry, and the loop returns at once with both
  grids unrolled, when the first entry of row 0 is the negative of the last (a row
  antisymmetric about zero) or is zero: the quotient is negative, zero or the NaN of
  \<open>0 / 0\<close>.  There is no guard for a zero denominator: with a zero last entry the loop
  returns at once only when the first entry is not positive; when it is positive the
  quotient is \<open>+inf\<close>, the test holds and the loop rolls at least once, and then leaves
  within the grid width.
\<close>

theorem roll_loop_zero_denominator:
  assumes "grid_first ra = Some a" and "grid_last ra = Some b"
  shows "(a = - b \<or> a = 0 \<or> (b = 0 \<and> a < 0) \<longrightarrow>
            roll_cond ra = Inr False \<and> roll_loop (ra, prob) = Some (Inr (ra, prob))) \<and>
         (b = 0 \<and> 0 < a \<longrightarrow>
            roll_cond ra = Inr True \<and>
            roll_loop (ra, prob) = roll_loop (np_roll ra, np_roll prob) \<and>
            (\<exists>k. 0 < k \<and> k < length (hd ra) \<and>
                 roll_loop (ra, prob) = Some (Inr ((np_roll ^^ k) ra, (np_roll ^^ k) prob))))"
proof (intro conjI impI)
  assume h: "a = - b \<or> a = 0 \<or> (b = 0 \<and> a < 0)"
  then have "\<not> ratio_pos a b" by (auto simp: ratio_pos_def zero_less_divide_iff)
  then show c: "roll_cond ra = Inr False" using assms by (simp add: roll_cond_def)
  then show "roll_loop (ra, prob) = Some (Inr (ra, prob))" by (subst roll_loop.simps) simp
next
  assume h: "b = 0 \<and> 0 < a"
  then have "ratio_pos a b" by (simp add: ratio_pos_def)
  then show c: "roll_cond ra = Inr True" using assms by (simp add: roll_cond_def)
  then show "roll_loop (ra, prob) = roll_loop (np_roll ra, np_roll prob)"
    by (subst roll_loop.simps) simp
  have z: "0 \<in> set (hd ra)" using grid_last_mem(3)[OF assms(2)] h by simp
  then have sg: "\<exists>x\<in>set (hd ra). x \<le> 0" "\<exists>x\<in>set (hd ra). 0 \<le> x" by auto
  from roll_loop_exit[OF grid_last_mem(1,2)[OF assms(2)] sg, of prob]
  obtain k where k: "k < length (hd ra)" "roll_cond ((np_roll ^^ k) ra) = Inr False"
    "roll_loop (ra, prob) = Some (Inr ((np_roll ^^ k) ra, (np_roll ^^ k) prob))" by blast
  have "k \<noteq> 0" using k(2) c by (intro notI) simp
  with k(1,3) show "\<exists>k. 0 < k \<and> k < length (hd ra) \<and>
       roll_loop (ra, prob) = Some (Inr ((np_roll ^^ k) ra, (np_roll ^^ k) prob))" by auto
qed

theorem roll_loop_zero_denominator_witness:
  "grid_first [[0, 5, - 5, 0]] = Some 0 \<and> grid_last [[0, 5, - 5, 0]] = Some 0 \<and>
   roll_loop ([[0, 5, - 5, 0]], [[1, 2, 3, 4]]) = Some (Inr ([[0, 5, - 5, 0]], [[1, 2, 3, 4]])) \<and>
   grid_first [[- 3, 1, - 1, 3]] = Some (- 3) \<and> grid_last [[- 3, 1, - 1, 3]] = Some 3 \<and>
   roll_loop ([[- 3, 1, - 1, 3]], [[1, 2, 3, 4]]) = Some (Inr ([[- 3, 1, - 1, 3]], [[1, 2, 3, 4]])) \<and>
   grid_first [[5, - 3, 0]] = Some 5 \<and> grid_last [[5, - 3, 0]] = Some 0 \<and>
   roll_cond [[5, - 3, 0]] = Inr True \<and>
   roll_loop ([[5, - 3, 0]], [[1, 2, 3]]) = roll_loop (np_roll [[5, - 3, 0]], np_roll [[1, 2, 3]])"
  using roll_loop_zero_denominator[of "[[0, 5, - 5, 0]]" 0 0 "[[1, 2, 3, 4]]"]
    roll_loop_zero_denominator[of "[[- 3, 1, - 1, 3]]" "- 3" 3 "[[1, 2, 3, 4]]"]
    roll_loop_zero_denominator[of "[[5, - 3, 0]]" 5 0 "[[1, 2, 3]]"]
  by (simp add: grid_first_def grid_last_def)

text \<open>
  The claim as stated fails on the row \<open>[5, -3, 0]\<close>: the denominator is zero, the test
  holds, and the loop returns the grids rolled by one column.
\<close>

theorem zero_denominator_rolls_counterexample:
  "grid_first [[5, - 3, 0]] = Some 5 \<and> grid_last [[5, - 3, 0]] = Some 0 \<and>
   roll_cond [[5, - 3, 0]] = Inr True \<and>
   roll_loop ([[5, - 3, 0]], [[1, 2, 3]]) = Some (Inr ([[- 3, 0, 5]], [[2, 3, 1]])) \<and>
   roll_loop ([[5, - 3, 0]], [[1, 2, 3]]) \<noteq> Some (Inr ([[5, - 3, 0]], [[1, 2, 3]]))"
proof -
  have b: "roll_loop ([[5, - 3, 0]], [[1, 2, 3]]) = Some (Inr ([[- 3, 0, 5]], [[2, 3, 1]]))"
    using roll_loop_least[of 1 "[[5, - 3, 0]]" "[[1, 2, 3]]"]
    by (simp add: roll_cond_def grid_first_def grid_last_def ratio_pos_def np_roll_def)
  show ?thesis using b
    by (simp add: roll_cond_def grid_first_def grid_last_def ratio_pos_def)
qed

subsection \<open>Peak location\<close>

lemma argmax_from_spec:
  "bi < length pre \<Longrightarrow> pre ! bi = b \<Longrightarrow> (\<forall>j<length pre. pre ! j \<le> b) \<Longrightarrow>
   (\<forall>j<bi. pre ! j < b) \<Longrightarrow>
   argmax_from xs (length pre) bi b < length (pre @ xs) \<and>
   (\<forall>j<length (pre @ xs). (pre @ xs) ! j \<le> (pre @ xs) ! argmax_from xs (length pre) bi b) \<and>
   (\<forall>j<argmax_from xs (length pre) bi b. (pre @ xs) ! j < (pre @ xs) ! argmax_from xs (length pre) bi b)"
proof (induction xs arbitrary: pre bi b)
  case Nil
  then show ?case by simp
next
  case (Cons x xs)
  show ?case
  proof (cases "b < x")
    case True
    have a: "length pre < length (pre @ [x])" by simp
    have b: "(pre @ [x]) ! length pre = x" by simp
    have c: "\<forall>j<length (pre @ [x]). (pre @ [x]) ! j \<le> x"
      using Cons.prems(3) True by (auto simp: nth_append less_Suc_eq)
    have d: "\<forall>j<length pre. (pre @ [x]) ! j < x"
      using Cons.prems(3) True by (auto simp: nth_append)
    from Cons.IH[OF a b c d] True show ?thesis by simp
  next
    case False
    have a: "bi < length (pre @ [x])" using Cons.prems(1) by simp
    have b: "(pre @ [x]) ! bi = b" using Cons.prems(1,2) by (simp add: nth_append)
    have c: "\<forall>j<length (pre @ [x]). (pre @ [x]) ! j \<le> b"
      using Cons.prems(3) False by (auto simp: nth_append less_Suc_eq)
    have d: "\<forall>j<bi. (pre @ [x]) ! j < b"
      using Cons.prems(1,4) by (auto simp: nth_append)
    from Cons.IH[OF a b c d] False show ?thesis by simp
  qed
qed

lemma argmax_spec:
  assumes "argmax xs = Some k"
  shows "k < length xs" and "\<forall>j<length xs. xs ! j \<le> xs ! k" and "\<forall>j<k. xs ! j < xs ! k"
proof -
  from assms obtain x rest where xs: "xs = x # rest" and k: "k = argmax_from rest 1 0 x"
    by (auto simp: argmax_def split: list.splits)
  have "argmax_from rest (length [x]) 0 x < length ([x] @ rest) \<and>
   (\<forall>j<length ([x] @ rest). ([x] @ rest) ! j \<le> ([x] @ rest) ! argmax_from rest (length [x]) 0 x) \<and>
   (\<forall>j<argmax_from rest (length [x]) 0 x. ([x] @ rest) ! j < ([x] @ rest) ! argmax_from rest (length [x]) 0 x)"
    by (rule argmax_from_spec) simp_all
  then show "k < length xs" and "\<forall>j<length xs. xs ! j \<le> xs ! k" and "\<forall>j<k. xs ! j < xs ! k"
    using xs k by simp_all
qed


lemma concat_rect_length: "\<forall>r\<in>set g. length r = n \<Longrightarrow> length (concat g) = length g * n"
  by (induction g) simp_all

lemma concat_rect_nth:
  "\<forall>r\<in>set g. length r = n \<Longrightarrow> k < length g * n \<Longrightarrow>
   k div n < length g \<and> k mod n < length (g ! (k div n)) \<and> concat g ! k = g ! (k div n) ! (k mod n)"
proof (induction g arbitrary: k)
  case Nil
  then show ?case by simp
next
  case (Cons r g)
  have n: "0 < n" using Cons.prems(2) by (cases n) simp_all
  have lr: "length r = n" using Cons.prems(1) by simp
  show ?case
  proof (cases "k < n")
    case True
    then show ?thesis using lr by (simp add: nth_append)
  next
    case False
    then have kn: "n \<le> k" by simp
    have "k - n < length g * n" using Cons.prems(2) kn by simp
    moreover have "\<forall>r\<in>set g. length r = n" using Cons.prems(1) by simp
    ultimately
    have ih: "(k - n) div n < length g \<and> (k - n) mod n < length (g ! ((k - n) div n)) \<and>
       concat g ! (k - n) = g ! ((k - n) div n) ! ((k - n) mod n)" by (intro Cons.IH)
    have d: "k div n = Suc ((k - n) div n)" using kn n by (simp add: le_div_geq)
    have m: "k mod n = (k - n) mod n" using kn by (simp add: le_mod_geq)
    show ?thesis using ih False lr n by (simp add: d m nth_append)
  qed
qed

lemma peak_in_grid:
  assumes "argmax (concat g) = Some k" and "\<forall>r\<in>set g. length r = length (hd g)"
  shows "grid_at g (unravel_index k g) = Some (concat g ! k)"
proof -
  have "k < length (concat g)" using argmax_spec(1)[OF assms(1)] .
  then have "k < length g * length (hd g)" using concat_rect_length[OF assms(2)] by simp
  from concat_rect_nth[OF assms(2) this] show ?thesis
    by (simp add: grid_at_def unravel_index_def)
qed

subsection \<open>The interpolation cache and the file names\<close>

declare str_replace.simps [simp del]

lemma endswith_iff: "endswith s suf \<longleftrightarrow> (\<exists>p. s = p @ suf)"
proof
  assume "endswith s suf"
  then have "s = take (length s - length suf) s @ suf"
    by (metis append_take_drop_id endswith_def)
  then show "\<exists>p. s = p @ suf" ..
next
  assume "\<exists>p. s = p @ suf"
  then show "endswith s suf" by (auto simp: endswith_def)
qed

lemma str_replace_Nil: "str_replace old new [] = []"
  by (subst str_replace.simps) simp

lemma str_replace_match:
  "old \<noteq> [] \<Longrightarrow> s \<noteq> [] \<Longrightarrow> take (length old) s = old \<Longrightarrow>
   str_replace old new s = new @ str_replace old new (drop (length old) s)"
  by (subst str_replace.simps) simp

lemma str_replace_skip:
  "old \<noteq> [] \<Longrightarrow> take (length old) (x # xs) \<noteq> old \<Longrightarrow>
   str_replace old new (x # xs) = x # str_replace old new xs"
  by (subst str_replace.simps) simp

lemma fits_gz_length: "length ''fits.gz'' = 7"
  by simp

lemma fits_gz_no_border:
  assumes "take 7 (p @ ''fits.gz'') = ''fits.gz''" and "0 < length p" and "length p < 7"
  shows False
proof -
  let ?old = "''fits.gz''"
  let ?k = "length p"
  have "(p @ ?old) ! ?k = CHR ''f''" by (simp add: nth_append)
  moreover have "take 7 (p @ ?old) ! ?k = (p @ ?old) ! ?k" using assms(3) by (intro nth_take)
  ultimately have f: "?old ! ?k = CHR ''f''" using assms(1) by (simp only:)
  from assms(2,3) have "?k = 1 \<or> ?k = 2 \<or> ?k = 3 \<or> ?k = 4 \<or> ?k = 5 \<or> ?k = 6" by arith
  with f show False by auto
qed

lemma str_replace_fits_gz_suffix:
  "\<exists>q. str_replace ''fits.gz'' ''intrp.npz'' (p @ ''fits.gz'') = q @ ''intrp.npz''"
proof (induction "length p" arbitrary: p rule: less_induct)
  case less
  let ?old = "''fits.gz''" and ?new = "''intrp.npz''"
  have ne: "?old \<noteq> []" "p @ ?old \<noteq> []" by simp_all
  show ?case
  proof (cases "take 7 (p @ ?old) = ?old")
    case True
    then have m: "take (length ?old) (p @ ?old) = ?old" by (simp only: fits_gz_length)
    have step: "str_replace ?old ?new (p @ ?old) = ?new @ str_replace ?old ?new (drop 7 (p @ ?old))"
      using str_replace_match[OF ne m, of ?new] by (simp only: fits_gz_length)
    show ?thesis
    proof (cases "p = []")
      case True
      with step have "str_replace ?old ?new (p @ ?old) = [] @ ?new"
        by (simp add: str_replace_Nil)
      then show ?thesis by blast
    next
      case False
      have "\<not> length p < 7" using fits_gz_no_border[OF True] False by auto
      then have ge: "7 \<le> length p" by simp
      then have d: "drop 7 (p @ ?old) = drop 7 p @ ?old" by simp
      have lt: "length (drop 7 p) < length p" using ge by simp
      from less[OF lt] obtain q where
        q: "str_replace ?old ?new (drop 7 p @ ?old) = q @ ?new" by blast
      from step d q have "str_replace ?old ?new (p @ ?old) = (?new @ q) @ ?new" by simp
      then show ?thesis by blast
    qed
  next
    case False
    then have "p \<noteq> []" by auto
    then obtain x p' where p: "p = x # p'" by (cases p) auto
    from less[of p'] p obtain q where
      q: "str_replace ?old ?new (p' @ ?old) = q @ ?new" by auto
    have "take (length ?old) (x # (p' @ ?old)) = take 7 (p @ ?old)"
      by (simp only: fits_gz_length p append_Cons)
    with False have nm: "take (length ?old) (x # (p' @ ?old)) \<noteq> ?old"
      by (simp only: not_False_eq_True)
    have "str_replace ?old ?new (x # (p' @ ?old)) = x # str_replace ?old ?new (p' @ ?old)"
      by (rule str_replace_skip[OF ne(1) nm])
    with q p have "str_replace ?old ?new (p @ ?old) = (x # q) @ ?new" by simp
    then show ?thesis by blast
  qed
qed

lemma cache_fname_npz:
  assumes "endswith filename ''fits.gz''"
  shows "endswith (cache_fname filename) ''.npz''" and "savez_path (cache_fname filename) = cache_fname filename"
proof -
  from assms obtain p where "filename = p @ ''fits.gz''" by (auto simp: endswith_iff)
  with str_replace_fits_gz_suffix[of p] obtain q where "cache_fname filename = q @ ''intrp.npz''"
    by (auto simp: cache_fname_def)
  then have "cache_fname filename = (q @ ''intrp'') @ ''.npz''" by simp
  then show "endswith (cache_fname filename) ''.npz''" unfolding endswith_iff by blast
  then show "savez_path (cache_fname filename) = cache_fname filename" by (simp add: savez_path_def)
qed

subsection \<open>One event\<close>

lemma get_or_compute_cases:
  "get_or_compute e st f tbl =
     (case disk st (cache_fname f) of
        Some (Npz t) \<Rightarrow> Inr (t, st)
      | Some OtherFile \<Rightarrow> Inl IOError
      | None \<Rightarrow>
          if isdir e (parent_dir (savez_path (cache_fname f)))
          then Inr (interpolate_healpix_map e tbl,
            st\<lparr>disk := (disk st)(savez_path (cache_fname f) \<mapsto> Npz (interpolate_healpix_map e tbl)),
               interp_calls := interp_calls st @ [f]\<rparr>)
          else Inl IOError)"
  by (simp add: get_or_compute_def Let_def split: option.splits)

lemma get_or_compute_ok:
  assumes "disk st (cache_fname f) \<noteq> Some OtherFile"
    and "disk st (cache_fname f) = None \<Longrightarrow> isdir e (parent_dir (savez_path (cache_fname f)))"
  shows "\<exists>st'. get_or_compute e st f tbl =
            Inr ((case disk st (cache_fname f) of Some (Npz t) \<Rightarrow> t | _ \<Rightarrow> interpolate_healpix_map e tbl), st') \<and>
          config_information st' = config_information st \<and> linecolor st' = linecolor st \<and>
          contours st' = contours st \<and> flagged st' = flagged st \<and>
          disk st' = (case disk st (cache_fname f) of
                        None \<Rightarrow> (disk st)(savez_path (cache_fname f) \<mapsto> Npz (interpolate_healpix_map e tbl))
                      | _ \<Rightarrow> disk st) \<and>
          interp_calls st' = (case disk st (cache_fname f) of
                        None \<Rightarrow> interp_calls st @ [f] | _ \<Rightarrow> interp_calls st)"
  using assms by (auto simp: get_or_compute_cases split: option.splits file_content.splits)

lemma process_event_success:
  assumes vs: "vital_statistics e f = Inr (enum, gmst, tbl, pix_size)"
    and snr: "read_snr e f = Inr snrs" "snrs ''Network'' = Some net"
    and cs: "cspecs label = Some cmap"
    and lc: "select_linecolor cmap (real (prb68 (sd_cumul tbl)) * pix_size) net (linecolor st) = Some c"
    and ca: "disk st (cache_fname f) \<noteq> Some OtherFile"
      "(case disk st (cache_fname f) of Some (Npz t) \<Rightarrow> t | _ \<Rightarrow> interpolate_healpix_map e tbl)
         = (ra_int, dec_int, prob_int)"
    and dr: "disk st (cache_fname f) = None \<Longrightarrow> isdir e (parent_dir (savez_path (cache_fname f)))"
    and rl: "roll_loop (rotate_grid gmst ra_int, prob_int) = Some (Inr (ra_r, prob_r))"
    and lv: "prb68 (sd_cumul tbl) < length (sd_prob tbl)"
    and pj: "proj e (map (map uminus) ra_r) dec_int = (ra_p, dec_p)"
    and am: "argmax (concat prob_r) = Some k"
    and pk: "grid_at ra_p (unravel_index k prob_r) = Some ra_max"
      "grid_at dec_p (unravel_index k prob_r) = Some dec_max"
  shows "\<exists>st'. process_event e cspecs label st f = Some (Inr st') \<and>
           config_information st' = (config_information st)
              (label := config_information st label @
                 [(real (prb68 (sd_cumul tbl)) * pix_size, net,
                   net_antenna_pattern_point e gmst (network e) ra_max dec_max)]) \<and>
           flagged st' = flagged st @ (if 64 < real (prb68 (sd_cumul tbl)) * pix_size then [enum] else []) \<and>
           contours st' = contours st @ [(sd_prob tbl ! prb68 (sd_cumul tbl), c)] \<and>
           linecolor st' = Some c \<and>
           disk st' = (case disk st (cache_fname f) of
                        None \<Rightarrow> (disk st)(savez_path (cache_fname f) \<mapsto> Npz (interpolate_healpix_map e tbl))
                      | _ \<Rightarrow> disk st) \<and>
           interp_calls st' = (case disk st (cache_fname f) of
                        None \<Rightarrow> interp_calls st @ [f] | _ \<Rightarrow> interp_calls st)"
proof -
  define area where "area = real (prb68 (sd_cumul tbl)) * pix_size"
  define st1 where "st1 = (if area > 64 then st\<lparr>flagged := flagged st @ [enum]\<rparr> else st)"
  define st2 where "st2 = st1\<lparr>linecolor := select_linecolor cmap area net (linecolor st1)\<rparr>"
  have lc1: "linecolor st1 = linecolor st" by (simp add: st1_def)
  have d2: "disk st2 = disk st" by (simp add: st2_def st1_def)
  have ca2: "disk st2 (cache_fname f) \<noteq> Some OtherFile" using ca(1) by (simp add: d2)
  have dr2: "disk st2 (cache_fname f) = None \<Longrightarrow> isdir e (parent_dir (savez_path (cache_fname f)))"
    using dr by (simp add: d2)
  from get_or_compute_ok[of st2 f e tbl, OF ca2 dr2] ca(2) d2
  obtain st3 where g: "get_or_compute e st2 f tbl = Inr ((ra_int, dec_int, prob_int), st3)"
    and st3: "config_information st3 = config_information st2" "linecolor st3 = linecolor st2"
      "contours st3 = contours st2" "flagged st3 = flagged st2"
      "disk st3 = (case disk st2 (cache_fname f) of
                        None \<Rightarrow> (disk st2)(savez_path (cache_fname f) \<mapsto> Npz (interpolate_healpix_map e tbl))
                      | _ \<Rightarrow> disk st2)"
      "interp_calls st3 = (case disk st2 (cache_fname f) of
                        None \<Rightarrow> interp_calls st2 @ [f] | _ \<Rightarrow> interp_calls st2)"
    by auto
  have d3: "disk st3 = (case disk st (cache_fname f) of
                        None \<Rightarrow> (disk st)(savez_path (cache_fname f) \<mapsto> Npz (interpolate_healpix_map e tbl))
                      | _ \<Rightarrow> disk st)"
    using st3(5) by (simp add: d2 split: option.splits)
  have l3: "linecolor st3 = Some c" using st3(2) lc lc1 by (simp add: st2_def area_def)
  have c3: "config_information st3 = config_information st" "contours st3 = contours st"
    "flagged st3 = flagged st @ (if 64 < area then [enum] else [])"
    using st3 by (simp_all add: st2_def st1_def)
  have i3: "interp_calls st3 = (case disk st (cache_fname f) of
                        None \<Rightarrow> interp_calls st @ [f] | _ \<Rightarrow> interp_calls st)"
    using st3(6) by (simp add: st2_def st1_def split: option.splits)
  define st' where "st' = st3\<lparr>contours := contours st3 @ [(sd_prob tbl ! prb68 (sd_cumul tbl), c)],
      config_information := (config_information st3)
        (label := config_information st3 label @
           [(area, net, net_antenna_pattern_point e gmst (network e) ra_max dec_max)])\<rparr>"
  have de: "draw_and_emit e label st3 gmst tbl area net (ra_r, dec_int, prob_r) = Inr st'"
    using lv pj am pk l3 by (simp add: draw_and_emit_def Let_def st'_def)
  have "process_event e cspecs label st f = Some (Inr st')"
    using vs snr cs g rl de
    by (simp add: process_event_def Let_def area_def[symmetric] st1_def[symmetric] st2_def[symmetric])
  then show ?thesis using c3 l3 d3 i3 unfolding area_def[symmetric]
    by (intro exI[of _ st']) (simp add: st'_def)
qed








subsection \<open>The small run, evaluated\<close>

lemma ex_roll:
  "roll_loop ([[- 80, 10, 100, - 170], [- 80, 10, 100, - 170]], [[1, 2, 3, 4], [5, 9, 7, 8]]) =
     Some (Inr ([[10, 100, - 170, - 80], [10, 100, - 170, - 80]], [[2, 3, 4, 1], [9, 7, 8, 5]]))"
  using roll_loop_least[of 1 "[[- 80, 10, 100, - 170], [- 80, 10, 100, - 170]]" "[[1, 2, 3, 4], [5, 9, 7, 8]]"]
  by (simp add: roll_cond_def grid_first_def grid_last_def ratio_pos_def np_roll_def)

lemma ex_rotate:
  "rotate_grid (16 / 3) [[0, 6, 12, 18], [0, 6, 12, 18]] =
     [[- 80, 10, 100, - 170], [- 80, 10, 100, - 170]]"
  by (simp add: rotate_grid_def to_degrees_eq wrap_deg_def where_below_def where_above_def)

lemma ex_prb68: "prb68 (sd_cumul ex_table) = 1"
  by (simp add: ex_table_def prb68_def searchsorted_def bisect_left.simps)

lemma ex_vital_m1: "vital_statistics ex_env ''a/1/p/m1.fits.gz'' = Inr (1, 16 / 3, ex_table, 3438)"
  by (simp add: vital_statistics_def get_event_num_def last_digit_run_def is_digit_def
      int_of_digits_def ex_env_def np_mod_def ex_table_def)

lemma ex_vital_m2: "vital_statistics ex_env ''a/2/p/m2.fits.gz'' = Inr (2, 12, ex_table, 3438)"
  by (simp add: vital_statistics_def get_event_num_def last_digit_run_def is_digit_def
      int_of_digits_def ex_env_def np_mod_def ex_table_def)

lemma ex_vital_n1: "vital_statistics ex_env ''b/1/p/n1.fits.gz'' = Inr (1, 16 / 3, ex_table, 3438)"
  by (simp add: vital_statistics_def get_event_num_def last_digit_run_def is_digit_def
      int_of_digits_def ex_env_def np_mod_def ex_table_def)

lemma ex_snr_m1:
  "\<exists>snrs. read_snr ex_env ''a/1/p/m1.fits.gz'' = Inr snrs \<and> snrs ''Network'' = Some 12"
  by (simp add: read_snr_def snr_path_def ex_env_def strip_def is_space_def Let_def)

lemma ex_snr_n1:
  "\<exists>snrs. read_snr ex_env ''b/1/p/n1.fits.gz'' = Inr snrs \<and> snrs ''Network'' = Some 12"
  by (simp add: read_snr_def snr_path_def ex_env_def strip_def is_space_def Let_def)

lemma ex_snr_m2: "read_snr ex_env ''a/2/p/m2.fits.gz'' = Inl IOError"
  by (simp add: read_snr_def snr_path_def ex_env_def)

lemma ex_cache_m1: "cache_fname ''a/1/p/m1.fits.gz'' = ''a/1/p/m1.intrp.npz''"
  by (simp add: cache_fname_def str_replace.simps)

lemma ex_cache_n1: "cache_fname ''b/1/p/n1.fits.gz'' = ''b/1/p/n1.intrp.npz''"
  by (simp add: cache_fname_def str_replace.simps)

lemma ex_cspecs:
  "\<exists>cs. parse_colorspecs (get_cmap ex_env) [''A=snr,red'', ''B=yellow''] Map.empty = Inr cs \<and>
     cs ''A'' = Some \<lparr>p_colors = ''red'', p_quant = Some ''snr'', p_norm = None\<rparr> \<and>
     cs ''B'' = Some \<lparr>p_colors = ''yellow'', p_quant = None, p_norm = None\<rparr>"
  by (simp add: Plottable_def ex_env_def)

lemma ex_parse: "parse_colorspecs (get_cmap ex_env) [''A=snr,red'', ''B=yellow''] Map.empty = Inr ex_cspecs"
  by (simp add: Plottable_def ex_env_def ex_cspecs_def)

lemma ex_interp:
  "interpolate_healpix_map ex_env tbl =
     ([[0, 6, 12, 18], [0, 6, 12, 18]], [[- 45, - 45, - 45, - 45], [45, 45, 45, 45]],
      [[1, 2, 3, 4], [5, 9, 7, 8]])"
  by (simp add: ex_env_def)

lemma ex_roll_rot:
  "roll_loop (rotate_grid (16 / 3) [[0, 6, 12, 18], [0, 6, 12, 18]], [[1, 2, 3, 4], [5, 9, 7, 8]]) =
     Some (Inr ([[10, 100, - 170, - 80], [10, 100, - 170, - 80]], [[2, 3, 4, 1], [9, 7, 8, 5]]))"
  by (simp only: ex_rotate ex_roll)

lemma ex_level: "prb68 (sd_cumul ex_table) < length (sd_prob ex_table)"
  by (simp add: ex_prb68) (simp add: ex_table_def)

lemma ex_level_val: "sd_prob ex_table ! prb68 (sd_cumul ex_table) = 3 / 10"
  by (simp add: ex_prb68) (simp add: ex_table_def)

lemma ex_level_val_Suc: "sd_prob ex_table ! Suc 0 = 3 / 10"
  by (simp add: ex_table_def)

lemma ex_proj:
  "proj ex_env (map (map uminus) [[10, 100, - 170, - 80], [10, 100, - 170, - 80]])
       [[- 45, - 45, - 45, - 45], [45, 45, 45, 45]] =
     ([[- 10, - 100, 170, 80], [- 10, - 100, 170, 80]], [[- 45, - 45, - 45, - 45], [45, 45, 45, 45]])"
  by (simp add: ex_env_def)

lemma ex_argmax: "argmax (concat [[2, 3, 4, 1], [9, 7, 8, 5]]) = Some 4"
  by (simp add: argmax_def)

lemma ex_peak:
  "grid_at [[- 10, - 100, 170, 80], [- 10, - 100, 170, 80]] (unravel_index 4 [[2, 3, 4, 1], [9, 7, 8, 5]]) = Some (- 10)"
  "grid_at [[- 45, - 45, - 45, - 45], [45, 45, 45, 45]] (unravel_index 4 [[2, 3, 4, 1], [9, 7, 8, 5]]) = Some 45"
  by (simp_all add: grid_at_def unravel_index_def)

lemma ex_antenna: "net_antenna_pattern_point ex_env t n a d = t + a + d"
  by (simp add: ex_env_def)

lemma ex_disk_miss:
  "ex_disk (cache_fname ''a/1/p/m1.fits.gz'') = None" "ex_disk (cache_fname ''b/1/p/n1.fits.gz'') = None"
  by (simp_all add: ex_cache_m1 ex_cache_n1 ex_disk_def)



lemma ex_isdir:
  "isdir ex_env (parent_dir (savez_path (cache_fname ''a/1/p/m1.fits.gz'')))"
  "isdir ex_env (parent_dir (savez_path (cache_fname ''b/1/p/n1.fits.gz'')))"
  by (simp_all add: ex_cache_m1 ex_cache_n1 savez_path_def endswith_def parent_dir_def ex_env_def)




subsection \<open>The size check and the antenna response\<close>



text \<open>
  C4, on the small run under a projection that is not the identity.  After the roll the
  probability peaks at index \<open>(1, 0)\<close>, where the rotated grid has right ascension -10
  (after the sign flip of line 279) and declination 45.  Line 281 has overwritten
  \<open>ra_int\<close> and \<open>dec_int\<close> with the projected map coordinates, so line 303 calls
  \<open>net_antenna_pattern_point\<close> at \<open>(-1000000, 4500000)\<close>, and the recorded response is
  the one of that point, not of the peak's right ascension and declination.
\<close>

lemma ex_scaled_vital:
  "vital_statistics ex_env_scaled ''a/1/p/m1.fits.gz'' = Inr (1, 16 / 3, ex_table, 3438)"
  by (simp add: vital_statistics_def get_event_num_def last_digit_run_def is_digit_def
      int_of_digits_def ex_env_scaled_def ex_env_def np_mod_def ex_table_def)

lemma ex_scaled_snr:
  "\<exists>snrs. read_snr ex_env_scaled ''a/1/p/m1.fits.gz'' = Inr snrs \<and> snrs ''Network'' = Some 12"
  by (simp add: read_snr_def snr_path_def ex_env_scaled_def ex_env_def strip_def is_space_def Let_def)

lemma ex_scaled_fields:
  "interpolate_healpix_map ex_env_scaled = interpolate_healpix_map ex_env"
  "isdir ex_env_scaled = isdir ex_env"
  "network ex_env_scaled = [''H1'', ''L1'']"
  "net_antenna_pattern_point ex_env_scaled t ns a d = t + a + d"
  by (simp_all add: ex_env_scaled_def) (simp_all add: ex_env_def)

lemma ex_scaled_proj:
  "proj ex_env_scaled (map (map uminus) [[10, 100, - 170, - 80], [10, 100, - 170, - 80]])
       [[- 45, - 45, - 45, - 45], [45, 45, 45, 45]] =
     ([[- 1000000, - 10000000, 17000000, 8000000], [- 1000000, - 10000000, 17000000, 8000000]],
      [[- 4500000, - 4500000, - 4500000, - 4500000], [4500000, 4500000, 4500000, 4500000]])"
  by (simp add: ex_env_scaled_def)

lemma ex_scaled_peak:
  "grid_at [[- 1000000, - 10000000, 17000000, 8000000], [- 1000000, - 10000000, 17000000, 8000000]]
     (unravel_index 4 [[2, 3, 4, 1], [9, 7, 8, 5]]) = Some (- 1000000)"
  "grid_at [[- 4500000, - 4500000, - 4500000, - 4500000], [4500000, 4500000, 4500000, 4500000]]
     (unravel_index 4 [[2, 3, 4, 1], [9, 7, 8, 5]]) = Some 4500000"
  by (simp_all add: grid_at_def unravel_index_def)

theorem antenna_called_at_projected_point:
  "roll_loop (rotate_grid (16 / 3) [[0, 6, 12, 18], [0, 6, 12, 18]], [[1, 2, 3, 4], [5, 9, 7, 8]]) =
     Some (Inr ([[10, 100, - 170, - 80], [10, 100, - 170, - 80]], [[2, 3, 4, 1], [9, 7, 8, 5]])) \<and>
   argmax (concat [[2, 3, 4, 1], [9, 7, 8, 5]]) = Some 4 \<and>
   unravel_index 4 [[2, 3, 4, 1], [9, 7, 8, 5]] = (1, 0) \<and>
   grid_at (map (map uminus) [[10, 100, - 170, - 80], [10, 100, - 170, - 80]]) (1, 0) = Some (- 10) \<and>
   grid_at [[- 45, - 45, - 45, - 45], [45, 45, 45, 45]] (1, 0) = Some 45 \<and>
   (case process_event ex_env_scaled ex_cspecs ''A'' (initial_state ex_disk) ''a/1/p/m1.fits.gz'' of
      Some (Inr st') \<Rightarrow>
        config_information st' ''A'' =
          [(3438, 12, net_antenna_pattern_point ex_env_scaled (16 / 3) [''H1'', ''L1''] (- 1000000) 4500000)]
    | _ \<Rightarrow> False) \<and>
   net_antenna_pattern_point ex_env_scaled (16 / 3) [''H1'', ''L1''] (- 1000000) 4500000 \<noteq>
     net_antenna_pattern_point ex_env_scaled (16 / 3) [''H1'', ''L1''] (- 10) 45"
proof -
  let ?f = "''a/1/p/m1.fits.gz''" and ?st = "initial_state ex_disk"
  obtain snrs where snr: "read_snr ex_env_scaled ?f = Inr snrs" "snrs ''Network'' = Some 12"
    using ex_scaled_snr by blast
  note vs = ex_scaled_vital
  have cs: "ex_cspecs ''A'' = Some \<lparr>p_colors = ''red'', p_quant = Some ''snr'', p_norm = None\<rparr>"
    by (simp add: ex_cspecs_def)
  have lc: "select_linecolor \<lparr>p_colors = ''red'', p_quant = Some ''snr'', p_norm = None\<rparr>
      (real (prb68 (sd_cumul ex_table)) * 3438) 12 (linecolor ?st) = Some (ColorName ''red'')"
    by (simp add: select_linecolor_def plottable_call_def)
  have ca: "disk ?st (cache_fname ?f) \<noteq> Some OtherFile"
    "(case disk ?st (cache_fname ?f) of Some (Npz t) \<Rightarrow> t | _ \<Rightarrow> interpolate_healpix_map ex_env_scaled ex_table)
      = ([[0, 6, 12, 18], [0, 6, 12, 18]], [[- 45, - 45, - 45, - 45], [45, 45, 45, 45]],
      [[1, 2, 3, 4], [5, 9, 7, 8]])"
    by (simp_all add: initial_state_def ex_disk_miss ex_interp ex_scaled_fields)
  have dr: "isdir ex_env_scaled (parent_dir (savez_path (cache_fname ?f)))"
    by (simp add: ex_scaled_fields ex_isdir)
  from process_event_success[where snrs=snrs and cspecs=ex_cspecs and label="''A''" and e=ex_env_scaled,
      OF vs snr cs lc ca dr ex_roll_rot ex_level ex_scaled_proj ex_argmax ex_scaled_peak]
  obtain st' where "process_event ex_env_scaled ex_cspecs ''A'' ?st ?f = Some (Inr st')"
    "config_information st' ''A'' =
          [(3438, 12, net_antenna_pattern_point ex_env_scaled (16 / 3) [''H1'', ''L1''] (- 1000000) 4500000)]"
    by (auto simp: initial_state_def ex_prb68 ex_scaled_fields)
  then show ?thesis using ex_roll_rot ex_argmax
    by (simp add: ex_scaled_fields unravel_index_def grid_at_def)
qed

subsection \<open>Failures of the SNR file\<close>

lemma run_files_abort:
  "run_files e cspecs label st pre = Some (Inr st1) \<Longrightarrow>
   process_event e cspecs label st1 f = Some (Inl err) \<Longrightarrow>
   run_files e cspecs label st (pre @ f # rest) = Some (Inl err)"
proof (induction pre arbitrary: st)
  case Nil
  then show ?case by simp
next
  case (Cons g pre)
  from Cons.prems(1) obtain st0 where
    g: "process_event e cspecs label st g = Some (Inr st0)"
    and r: "run_files e cspecs label st0 pre = Some (Inr st1)"
    by (auto split: option.splits sum.splits)
  from Cons.IH[OF r Cons.prems(2)] g show ?case by simp
qed

lemma process_event_snr_failure:
  assumes "vital_statistics e f = Inr vs"
    and "read_snr e f = Inl err \<or>
         (\<exists>snrs. read_snr e f = Inr snrs \<and> snrs ''Network'' = None \<and> err = KeyError)"
  shows "process_event e cspecs label st f = Some (Inl err)"
proof -
  obtain enum gmst tbl pix_size where "vs = (enum, gmst, tbl, pix_size)" by (cases vs) auto
  with assms show ?thesis by (auto simp: process_event_def Let_def)
qed

lemma read_snr_missing: "snr_lines e (snr_path f) = None \<Longrightarrow> read_snr e f = Inl IOError"
  by (simp add: read_snr_def)

lemma not_two_parts:
  "length xs \<noteq> 2 \<Longrightarrow> (case map g xs of [k, v] \<Rightarrow> A k v | _ \<Rightarrow> B) = B"
  by (cases xs; cases "tl xs"; cases "tl (tl xs)") auto

lemma snr_pairs_bad:
  "\<exists>l\<in>set ls. length (split_on CHR '':'' l) \<noteq> 2 \<Longrightarrow> snr_pairs ls = Inl ValueError"
proof (induction ls)
  case Nil
  then show ?case by simp
next
  case (Cons l ls)
  show ?case
  proof (cases "length (split_on CHR '':'' l) = 2")
    case False
    then show ?thesis by (simp add: not_two_parts)
  next
    case True
    with Cons.prems have "\<exists>l\<in>set ls. length (split_on CHR '':'' l) \<noteq> 2" by auto
    then have "snr_pairs ls = Inl ValueError" by (rule Cons.IH)
    then show ?thesis by (simp split: list.splits)
  qed
qed

lemma snr_pairs_good:
  "\<forall>l\<in>set ls. length (split_on CHR '':'' l) = 2 \<Longrightarrow>
   snr_pairs ls =
     Inr (map (\<lambda>l. (strip (split_on CHR '':'' l ! 0), strip (split_on CHR '':'' l ! 1))) ls)"
proof (induction ls)
  case Nil
  then show ?case by simp
next
  case (Cons l ls)
  then have "length (split_on CHR '':'' l) = 2" by simp
  then obtain a b where ab: "split_on CHR '':'' l = [a, b]"
    by (cases "split_on CHR '':'' l"; cases "tl (split_on CHR '':'' l)") auto
  from Cons have "snr_pairs ls =
     Inr (map (\<lambda>l. (strip (split_on CHR '':'' l ! 0), strip (split_on CHR '':'' l ! 1))) ls)"
    by simp
  with ab show ?case by simp
qed

lemma map_of_rev_last:
  assumes "i < length kvs"
    and "\<forall>j. i < j \<and> j < length kvs \<longrightarrow> fst (kvs ! j) \<noteq> fst (kvs ! i)"
  shows "map_of (rev kvs) (fst (kvs ! i)) = Some (snd (kvs ! i))"
proof -
  let ?k = "fst (kvs ! i)"
  have split: "kvs = take i kvs @ kvs ! i # drop (Suc i) kvs"
    using assms(1) by (rule id_take_nth_drop)
  have "?k \<notin> fst ` set (drop (Suc i) kvs)"
  proof
    assume "?k \<in> fst ` set (drop (Suc i) kvs)"
    then obtain x where x: "x \<in> set (drop (Suc i) kvs)" "fst x = ?k" by auto
    then obtain j where j: "j < length (drop (Suc i) kvs)" "drop (Suc i) kvs ! j = x"
      by (auto simp: in_set_conv_nth)
    then have "kvs ! (Suc i + j) = x" "Suc i + j < length kvs" by auto
    with assms(2) x(2) show False by auto
  qed
  then have none: "map_of (rev (drop (Suc i) kvs)) ?k = None"
    by (simp add: map_of_eq_None_iff)
  have "rev kvs = rev (drop (Suc i) kvs) @ (kvs ! i # rev (take i kvs))"
    by (subst split) simp
  then have "map_of (rev kvs) ?k =
      (map_of (kvs ! i # rev (take i kvs)) ++ map_of (rev (drop (Suc i) kvs))) ?k"
    by (simp only: map_of_append)
  also have "\<dots> = map_of (kvs ! i # rev (take i kvs)) ?k"
    using none by (simp add: map_add_def)
  also have "\<dots> = Some (snd (kvs ! i))" by (cases "kvs ! i") simp
  finally show ?thesis .
qed

lemma read_snr_bad_line:
  assumes "snr_lines e (snr_path f) = Some ls"
    and "\<exists>l\<in>set ls. length (split_on CHR '':'' l) \<noteq> 2"
  shows "read_snr e f = Inl ValueError"
  using assms by (simp add: read_snr_def snr_pairs_bad)

lemma read_snr_bad_float:
  assumes ls: "snr_lines e (snr_path f) = Some ls"
    and good: "\<forall>l\<in>set ls. length (split_on CHR '':'' l) = 2"
    and i: "i < length ls" "py_float e (strip (split_on CHR '':'' (ls ! i) ! 1)) = None"
    and last: "\<forall>j. i < j \<and> j < length ls \<longrightarrow>
        strip (split_on CHR '':'' (ls ! j) ! 0) \<noteq> strip (split_on CHR '':'' (ls ! i) ! 0)"
  shows "read_snr e f = Inl ValueError"
proof -
  define kvs where
    "kvs = map (\<lambda>l. (strip (split_on CHR '':'' l ! 0), strip (split_on CHR '':'' l ! 1))) ls"
  have sp: "snr_pairs ls = Inr kvs" unfolding kvs_def using good by (rule snr_pairs_good)
  have ik: "i < length kvs" using i(1) by (simp add: kvs_def)
  have "\<forall>j. i < j \<and> j < length kvs \<longrightarrow> fst (kvs ! j) \<noteq> fst (kvs ! i)"
    using last i(1) by (simp add: kvs_def)
  from map_of_rev_last[OF ik this]
  have d: "map_of (rev kvs) (fst (kvs ! i)) = Some (strip (split_on CHR '':'' (ls ! i) ! 1))"
    using i(1) by (simp add: kvs_def)
  have mem: "fst (kvs ! i) \<in> set (map fst kvs)" using ik by simp
  have "\<not> list_all (\<lambda>k. case map_of (rev kvs) k of None \<Rightarrow> True | Some v \<Rightarrow> py_float e v \<noteq> None)
           (map fst kvs)"
    unfolding list_all_iff using mem d i(2) by (intro notI) (drule bspec, assumption, simp)
  then show ?thesis using ls sp by (simp add: read_snr_def Let_def)
qed

lemma read_snr_no_network:
  assumes ls: "snr_lines e (snr_path f) = Some ls"
    and good: "\<forall>l\<in>set ls. length (split_on CHR '':'' l) = 2"
    and fl: "\<forall>l\<in>set ls. py_float e (strip (split_on CHR '':'' l ! 1)) \<noteq> None"
    and nn: "\<forall>l\<in>set ls. strip (split_on CHR '':'' l ! 0) \<noteq> ''Network''"
  shows "\<exists>snrs. read_snr e f = Inr snrs \<and> snrs ''Network'' = None"
proof -
  define kvs where
    "kvs = map (\<lambda>l. (strip (split_on CHR '':'' l ! 0), strip (split_on CHR '':'' l ! 1))) ls"
  have sp: "snr_pairs ls = Inr kvs" unfolding kvs_def using good by (rule snr_pairs_good)
  have all: "list_all (\<lambda>k. case map_of (rev kvs) k of None \<Rightarrow> True | Some v \<Rightarrow> py_float e v \<noteq> None)
           (map fst kvs)"
    unfolding list_all_iff
  proof
    fix k assume "k \<in> set (map fst kvs)"
    show "case map_of (rev kvs) k of None \<Rightarrow> True | Some v \<Rightarrow> py_float e v \<noteq> None"
    proof (cases "map_of (rev kvs) k")
      case None
      then show ?thesis by simp
    next
      case (Some v)
      then have "(k, v) \<in> set kvs" using map_of_SomeD[of "rev kvs" k v] by simp
      then obtain l where "l \<in> set ls" "v = strip (split_on CHR '':'' l ! 1)"
        by (auto simp: kvs_def)
      with fl Some show ?thesis by simp
    qed
  qed
  have "''Network'' \<notin> fst ` set (rev kvs)" using nn by (auto simp: kvs_def)
  then have none: "map_of (rev kvs) ''Network'' = None" by (simp add: map_of_eq_None_iff)
  show ?thesis using ls sp all none by (simp add: read_snr_def Let_def)
qed

text \<open>
  C2 (as amended).  A missing SNR file (IOError), an SNR file with a line that does not
  split at the colon into two parts (ValueError), one with a value that is no float and
  is not overridden by a later line of the same key (ValueError), and a well-formed one
  of floats without a \<open>Network\<close> key (KeyError) end the whole run: when the files before
  \<open>f\<close> under a label have been processed and \<open>f\<close> has its event number and injection
  row, the event raises, the file loop raises the same error without looking at the
  remaining files, and so does the loop over the labels.
\<close>

theorem snr_failure_ends_run:
  assumes pre: "run_files e cspecs label st pre = Some (Inr st1)"
    and vs: "vital_statistics e f = Inr vs"
    and gl: "glob e globpat = pre @ f # rest"
    and bad:
      "(snr_lines e (snr_path f) = None \<and> err = IOError) \<or>
       (\<exists>ls. snr_lines e (snr_path f) = Some ls \<and>
          (\<exists>l\<in>set ls. length (split_on CHR '':'' l) \<noteq> 2) \<and> err = ValueError) \<or>
       (\<exists>ls i. snr_lines e (snr_path f) = Some ls \<and>
          (\<forall>l\<in>set ls. length (split_on CHR '':'' l) = 2) \<and> i < length ls \<and>
          py_float e (strip (split_on CHR '':'' (ls ! i) ! 1)) = None \<and>
          (\<forall>j. i < j \<and> j < length ls \<longrightarrow>
             strip (split_on CHR '':'' (ls ! j) ! 0) \<noteq> strip (split_on CHR '':'' (ls ! i) ! 0)) \<and>
          err = ValueError) \<or>
       (\<exists>ls. snr_lines e (snr_path f) = Some ls \<and>
          (\<forall>l\<in>set ls. length (split_on CHR '':'' l) = 2) \<and>
          (\<forall>l\<in>set ls. py_float e (strip (split_on CHR '':'' l ! 1)) \<noteq> None) \<and>
          (\<forall>l\<in>set ls. strip (split_on CHR '':'' l ! 0) \<noteq> ''Network'') \<and> err = KeyError)"
  shows "process_event e cspecs label st1 f = Some (Inl err) \<and>
         run_files e cspecs label st (pre @ f # rest) = Some (Inl err) \<and>
         run_labels e cspecs st ((label, globpat) # others) = Some (Inl err)"
proof -
  have "read_snr e f = Inl err \<or>
         (\<exists>snrs. read_snr e f = Inr snrs \<and> snrs ''Network'' = None \<and> err = KeyError)"
    using bad
  proof (elim disjE exE conjE)
    assume "snr_lines e (snr_path f) = None" "err = IOError"
    then show ?thesis by (simp add: read_snr_missing)
  next
    fix ls
    assume "snr_lines e (snr_path f) = Some ls"
      "\<exists>l\<in>set ls. length (split_on CHR '':'' l) \<noteq> 2" "err = ValueError"
    then show ?thesis by (simp add: read_snr_bad_line)
  next
    fix ls i
    assume "snr_lines e (snr_path f) = Some ls"
      "\<forall>l\<in>set ls. length (split_on CHR '':'' l) = 2" "i < length ls"
      "py_float e (strip (split_on CHR '':'' (ls ! i) ! 1)) = None"
      "\<forall>j. i < j \<and> j < length ls \<longrightarrow>
         strip (split_on CHR '':'' (ls ! j) ! 0) \<noteq> strip (split_on CHR '':'' (ls ! i) ! 0)"
      "err = ValueError"
    then show ?thesis using read_snr_bad_float[of e f ls i] by simp
  next
    fix ls
    assume "snr_lines e (snr_path f) = Some ls"
      "\<forall>l\<in>set ls. length (split_on CHR '':'' l) = 2"
      "\<forall>l\<in>set ls. py_float e (strip (split_on CHR '':'' l ! 1)) \<noteq> None"
      "\<forall>l\<in>set ls. strip (split_on CHR '':'' l ! 0) \<noteq> ''Network''" "err = KeyError"
    then show ?thesis using read_snr_no_network[of e f ls] by auto
  qed
  then have a: "process_event e cspecs label st1 f = Some (Inl err)"
    by (rule process_event_snr_failure[OF vs])
  have b: "run_files e cspecs label st (pre @ f # rest) = Some (Inl err)"
    using pre a by (rule run_files_abort)
  show ?thesis using a b gl by simp
qed

lemma ex_glob: "glob ex_env ''a/*'' = [''a/2/p/m2.fits.gz'', ''a/1/p/m1.fits.gz'']"
  "glob ex_env ''a/1/*'' = [''a/1/p/m1.fits.gz'']" "glob ex_env ''b/*'' = [''b/1/p/n1.fits.gz'']"
  by (simp_all add: ex_env_def)

lemma ex_snr_missing_m2: "snr_lines ex_env (snr_path ''a/2/p/m2.fits.gz'') = None"
  by (simp add: snr_path_def ex_env_def)


lemma ex_snr_env:
  "vital_statistics (ex_env_snr ls) ''a/1/p/m1.fits.gz'' = Inr (1, 16 / 3, ex_table, 3438)"
  "snr_lines (ex_env_snr ls) p = Some ls"
  "glob (ex_env_snr ls) ''a/1/*'' = [''a/1/p/m1.fits.gz'']"
  "py_float (ex_env_snr ls) ''abc'' = None"
  "py_float (ex_env_snr ls) ''8.5'' = Some (17 / 2)"
  by (simp_all add: vital_statistics_def get_event_num_def last_digit_run_def is_digit_def
      int_of_digits_def ex_env_snr_def ex_env_def np_mod_def ex_table_def)

lemma ex_split:
  "split_on CHR '':'' ''H1 8.5'' = [''H1 8.5'']"
  "split_on CHR '':'' ''H1: abc'' = [''H1'', '' abc'']"
  "split_on CHR '':'' ''H1: 8.5'' = [''H1'', '' 8.5'']"
  "split_on CHR '':'' ''Network: 12.0'' = [''Network'', '' 12.0'']"
  "strip ''H1'' = ''H1''" "strip ''Network'' = ''Network''"
  "strip '' abc'' = ''abc''" "strip '' 8.5'' = ''8.5''"
  by (simp_all add: strip_def is_space_def)

theorem snr_failure_ends_run_witness:
  "process_event ex_env ex_cspecs ''A'' (initial_state ex_disk) ''a/2/p/m2.fits.gz'' = Some (Inl IOError) \<and>
   run_labels ex_env ex_cspecs (initial_state ex_disk) [(''A'', ''a/*''), (''B'', ''b/*'')] = Some (Inl IOError) \<and>
   run_labels (ex_env_snr [''H1 8.5'', ''Network: 12.0'']) ex_cspecs (initial_state ex_disk)
      [(''A'', ''a/1/*'')] = Some (Inl ValueError) \<and>
   run_labels (ex_env_snr [''H1: abc'', ''Network: 12.0'']) ex_cspecs (initial_state ex_disk)
      [(''A'', ''a/1/*'')] = Some (Inl ValueError) \<and>
   run_labels (ex_env_snr [''H1: 8.5'']) ex_cspecs (initial_state ex_disk)
      [(''A'', ''a/1/*'')] = Some (Inl KeyError)"
proof -
  let ?st = "initial_state ex_disk" and ?m1 = "''a/1/p/m1.fits.gz''"
  have r: "run_files e ex_cspecs ''A'' ?st [] = Some (Inr ?st)" for e by simp
  have g: "glob ex_env ''a/*'' = [] @ ''a/2/p/m2.fits.gz'' # [''a/1/p/m1.fits.gz'']"
    by (simp add: ex_glob)
  have g1: "glob (ex_env_snr ls) ''a/1/*'' = [] @ ?m1 # []" for ls
    by (simp add: ex_snr_env)
  have c1: "process_event ex_env ex_cspecs ''A'' ?st ''a/2/p/m2.fits.gz'' = Some (Inl IOError) \<and>
     run_labels ex_env ex_cspecs ?st [(''A'', ''a/*''), (''B'', ''b/*'')] = Some (Inl IOError)"
    using snr_failure_ends_run[OF r ex_vital_m2 g, where err=IOError and others="[(''B'', ''b/*'')]"]
      ex_snr_missing_m2 by simp
  have c2: "run_labels (ex_env_snr [''H1 8.5'', ''Network: 12.0'']) ex_cspecs ?st
      [(''A'', ''a/1/*'')] = Some (Inl ValueError)"
    using snr_failure_ends_run[OF r[of "ex_env_snr [''H1 8.5'', ''Network: 12.0'']"]
        ex_snr_env(1) g1, where err=ValueError and others="[]"]
    by (simp add: ex_snr_env ex_split)
  have c3: "run_labels (ex_env_snr [''H1: abc'', ''Network: 12.0'']) ex_cspecs ?st
      [(''A'', ''a/1/*'')] = Some (Inl ValueError)"
  proof -
    let ?ls = "[''H1: abc'', ''Network: 12.0'']"
    have "\<exists>ls i. snr_lines (ex_env_snr ?ls) (snr_path ?m1) = Some ls \<and>
          (\<forall>l\<in>set ls. length (split_on CHR '':'' l) = 2) \<and> i < length ls \<and>
          py_float (ex_env_snr ?ls) (strip (split_on CHR '':'' (ls ! i) ! 1)) = None \<and>
          (\<forall>j. i < j \<and> j < length ls \<longrightarrow>
             strip (split_on CHR '':'' (ls ! j) ! 0) \<noteq> strip (split_on CHR '':'' (ls ! i) ! 0)) \<and>
          ValueError = ValueError"
      by (intro exI[of _ ?ls] exI[of _ 0]) (auto simp: ex_snr_env ex_split less_Suc_eq)
    then show ?thesis
      using snr_failure_ends_run[OF r[of "ex_env_snr ?ls"] ex_snr_env(1) g1,
          where err=ValueError and others="[]"]
      by blast
  qed
  have c4: "run_labels (ex_env_snr [''H1: 8.5'']) ex_cspecs ?st
      [(''A'', ''a/1/*'')] = Some (Inl KeyError)"
  proof -
    let ?ls = "[''H1: 8.5'']"
    have fl: "py_float (ex_env_snr ?ls) ''8.5'' \<noteq> None" by (simp only: ex_snr_env(5)) simp
    have "\<exists>ls. snr_lines (ex_env_snr ?ls) (snr_path ?m1) = Some ls \<and>
          (\<forall>l\<in>set ls. length (split_on CHR '':'' l) = 2) \<and>
          (\<forall>l\<in>set ls. py_float (ex_env_snr ?ls) (strip (split_on CHR '':'' l ! 1)) \<noteq> None) \<and>
          (\<forall>l\<in>set ls. strip (split_on CHR '':'' l ! 0) \<noteq> ''Network'') \<and> KeyError = KeyError"
      using fl by (intro exI[of _ ?ls]) (simp add: ex_snr_env(2) ex_split)
    then show ?thesis
      using snr_failure_ends_run[OF r[of "ex_env_snr ?ls"] ex_snr_env(1) g1,
          where err=KeyError and others="[]"]
      by blast
  qed
  from c1 c2 c3 c4 show ?thesis by simp
qed

lemma ex_disk_npz:
  "ex_disk ''a/1/p/m1.intrp.npz'' = None" "ex_disk ''b/1/p/n1.intrp.npz'' = None"
  by (simp_all add: ex_disk_def)

lemma ex_savez:
  "savez_path ''a/1/p/m1.intrp.npz'' = ''a/1/p/m1.intrp.npz''"
  "savez_path ''b/1/p/n1.intrp.npz'' = ''b/1/p/n1.intrp.npz''"
  by (simp_all add: savez_path_def endswith_def)

lemma ex_run_m1:
  "\<exists>st'. process_event ex_env ex_cspecs ''A'' (initial_state ex_disk) ''a/1/p/m1.fits.gz'' = Some (Inr st') \<and>
     config_information st' = (\<lambda>_. [])(''A'' := [(3438, 12, 121 / 3)]) \<and>
     flagged st' = [1] \<and> contours st' = [(3 / 10, ColorName ''red'')] \<and>
     linecolor st' = Some (ColorName ''red'') \<and>
     disk st' = ex_disk(''a/1/p/m1.intrp.npz'' \<mapsto> Npz (interpolate_healpix_map ex_env ex_table)) \<and>
     interp_calls st' = [''a/1/p/m1.fits.gz'']"
proof -
  let ?f = "''a/1/p/m1.fits.gz''" and ?st = "initial_state ex_disk"
  obtain snrs where snr: "read_snr ex_env ?f = Inr snrs" "snrs ''Network'' = Some 12"
    using ex_snr_m1 by blast
  have cs: "ex_cspecs ''A'' = Some \<lparr>p_colors = ''red'', p_quant = Some ''snr'', p_norm = None\<rparr>"
    by (simp add: ex_cspecs_def)
  have lc: "select_linecolor \<lparr>p_colors = ''red'', p_quant = Some ''snr'', p_norm = None\<rparr>
      (real (prb68 (sd_cumul ex_table)) * 3438) 12 (linecolor ?st) = Some (ColorName ''red'')"
    by (simp add: select_linecolor_def plottable_call_def)
  have ca: "disk ?st (cache_fname ?f) \<noteq> Some OtherFile"
    "(case disk ?st (cache_fname ?f) of Some (Npz t) \<Rightarrow> t | _ \<Rightarrow> interpolate_healpix_map ex_env ex_table)
      = ([[0, 6, 12, 18], [0, 6, 12, 18]], [[- 45, - 45, - 45, - 45], [45, 45, 45, 45]],
      [[1, 2, 3, 4], [5, 9, 7, 8]])"
    by (simp_all add: initial_state_def ex_disk_miss ex_interp)
  from process_event_success[where snrs=snrs and cspecs=ex_cspecs and label="''A''",
      OF ex_vital_m1 snr cs lc ca ex_isdir(1) ex_roll_rot ex_level ex_proj ex_argmax ex_peak]
  show ?thesis
    by (simp add: initial_state_def ex_antenna ex_level_val_Suc ex_prb68 ex_disk_npz ex_cache_m1 ex_savez)
qed

text \<open>
  The claim as stated fails on the small run: under \<open>a/*\<close> the file without an SNR file
  comes first and the run ends in IOError, although the file after it is processed
  without error when it is the only one.
\<close>

theorem snr_failure_continues_counterexample:
  "run_batch ex_env [''A=snr,red'', ''B=yellow''] [(''A'', ''a/*'')] ex_disk = Some (Inl IOError) \<and>
   (case run_batch ex_env [''A=snr,red'', ''B=yellow''] [(''A'', ''a/1/*'')] ex_disk of
      Some (Inr st) \<Rightarrow> config_information st ''A'' = [(3438, 12, 121 / 3)]
    | _ \<Rightarrow> False)"
proof -
  have "process_event ex_env ex_cspecs ''A'' (initial_state ex_disk) ''a/2/p/m2.fits.gz'' = Some (Inl IOError)"
    by (rule process_event_snr_failure[OF ex_vital_m2]) (simp add: ex_snr_m2)
  then have a: "run_batch ex_env [''A=snr,red'', ''B=yellow''] [(''A'', ''a/*'')] ex_disk = Some (Inl IOError)"
    by (simp add: run_batch_def ex_parse ex_glob del: parse_colorspecs.simps)
  from ex_run_m1 obtain st' where
    "process_event ex_env ex_cspecs ''A'' (initial_state ex_disk) ''a/1/p/m1.fits.gz'' = Some (Inr st')"
    "config_information st' = (\<lambda>_. [])(''A'' := [(3438, 12, 121 / 3)])" by blast
  then have b: "(case run_batch ex_env [''A=snr,red'', ''B=yellow''] [(''A'', ''a/1/*'')] ex_disk of
      Some (Inr st) \<Rightarrow> config_information st ''A'' = [(3438, 12, 121 / 3)]
    | _ \<Rightarrow> False)"
    by (simp add: run_batch_def ex_parse ex_glob del: parse_colorspecs.simps)
  from a b show ?thesis by simp
qed



subsection \<open>The interpolation cache\<close>

text \<open>
  Where the cache works: a map file whose name ends in \<open>fits.gz\<close> and whose cache name
  lies in an existing directory.
\<close>

lemma cache_hit_after_miss:
  assumes "endswith filename ''fits.gz''" and "disk st (cache_fname filename) = None"
    and "isdir e (parent_dir (cache_fname filename))"
  shows "\<exists>st1. get_or_compute e st filename tbl = Inr (interpolate_healpix_map e tbl, st1) \<and>
           interp_calls st1 = interp_calls st @ [filename] \<and>
           disk st1 (cache_fname filename) = Some (Npz (interpolate_healpix_map e tbl)) \<and>
           (\<forall>st2 tbl2. disk st2 (cache_fname filename) = disk st1 (cache_fname filename) \<longrightarrow>
              get_or_compute e st2 filename tbl2 = Inr (interpolate_healpix_map e tbl, st2))"
proof -
  let ?t = "interpolate_healpix_map e tbl"
  let ?st1 = "st\<lparr>disk := (disk st)(savez_path (cache_fname filename) \<mapsto> Npz ?t),
                 interp_calls := interp_calls st @ [filename]\<rparr>"
  have sp: "savez_path (cache_fname filename) = cache_fname filename"
    using assms(1) by (rule cache_fname_npz(2))
  have a: "get_or_compute e st filename tbl = Inr (?t, ?st1)"
    using assms(2,3) by (simp add: get_or_compute_cases sp)
  have b: "disk ?st1 (cache_fname filename) = Some (Npz ?t)" by (simp add: sp)
  have c: "get_or_compute e st2 filename tbl2 = Inr (?t, st2)"
    if "disk st2 (cache_fname filename) = disk ?st1 (cache_fname filename)" for st2 tbl2
    using that b by (simp add: get_or_compute_cases)
  show ?thesis using a b c by (intro exI[of _ ?st1]) simp
qed

text \<open>
  C6, on two map files of the small run's disk.  For \<open>a/1/p/m1.fits.gz.old\<close> the cache
  name \<open>a/1/p/m1.intrp.npz.old\<close> does not end in \<open>.npz\<close>: the archive is written to
  \<open>a/1/p/m1.intrp.npz.old.npz\<close>, the cache name stays absent, and the second lookup for
  the same map file calls the kernel again.  For \<open>fits.gz/1/p/m1.fits.gz\<close> the
  replacement rewrites the directory as well: \<open>np.savez\<close> raises IOError, nothing is
  stored and nothing is returned.
\<close>

theorem cache_artifact_misplaced:
  "cache_fname ''a/1/p/m1.fits.gz.old'' = ''a/1/p/m1.intrp.npz.old'' \<and>
   savez_path ''a/1/p/m1.intrp.npz.old'' = ''a/1/p/m1.intrp.npz.old.npz'' \<and>
   (case get_or_compute ex_env (initial_state (ex_disk(''a/1/p/m1.fits.gz.old'' \<mapsto> OtherFile)))
           ''a/1/p/m1.fits.gz.old'' ex_table of
      Inl _ \<Rightarrow> False
    | Inr (t1, st1) \<Rightarrow>
        interp_calls st1 = [''a/1/p/m1.fits.gz.old''] \<and>
        disk st1 ''a/1/p/m1.intrp.npz.old'' = None \<and>
        disk st1 ''a/1/p/m1.intrp.npz.old.npz'' = Some (Npz t1) \<and>
        (case get_or_compute ex_env st1 ''a/1/p/m1.fits.gz.old'' ex_table of
           Inl _ \<Rightarrow> False
         | Inr (t2, st2) \<Rightarrow>
             interp_calls st2 = [''a/1/p/m1.fits.gz.old'', ''a/1/p/m1.fits.gz.old''])) \<and>
   cache_fname ''fits.gz/1/p/m1.fits.gz'' = ''intrp.npz/1/p/m1.intrp.npz'' \<and>
   get_or_compute ex_env (initial_state (ex_disk(''fits.gz/1/p/m1.fits.gz'' \<mapsto> OtherFile)))
       ''fits.gz/1/p/m1.fits.gz'' ex_table = Inl IOError"
proof -
  have c: "cache_fname ''a/1/p/m1.fits.gz.old'' = ''a/1/p/m1.intrp.npz.old''"
    by (simp add: cache_fname_def str_replace.simps)
  have s: "savez_path ''a/1/p/m1.intrp.npz.old'' = ''a/1/p/m1.intrp.npz.old.npz''"
    by (simp add: savez_path_def endswith_def)
  have d: "isdir ex_env (parent_dir ''a/1/p/m1.intrp.npz.old.npz'')"
    by (simp add: parent_dir_def ex_env_def)
  have c2: "cache_fname ''fits.gz/1/p/m1.fits.gz'' = ''intrp.npz/1/p/m1.intrp.npz''"
    by (simp add: cache_fname_def str_replace.simps)
  have s2: "savez_path ''intrp.npz/1/p/m1.intrp.npz'' = ''intrp.npz/1/p/m1.intrp.npz''"
    by (simp add: savez_path_def endswith_def)
  have d2: "\<not> isdir ex_env (parent_dir ''intrp.npz/1/p/m1.intrp.npz'')"
    by (simp add: parent_dir_def ex_env_def)
  show ?thesis
    by (simp add: c s d c2 s2 d2 get_or_compute_cases initial_state_def ex_disk_def)
qed

subsection \<open>The line colour\<close>

lemma process_event_unbound_linecolor:
  assumes vs: "vital_statistics e f = Inr (enum, gmst, tbl, pix_size)"
    and snr: "read_snr e f = Inr snrs" "snrs ''Network'' = Some net"
    and cs: "cspecs label = Some cmap"
    and lc: "select_linecolor cmap (real (prb68 (sd_cumul tbl)) * pix_size) net (linecolor st) = None"
    and ca: "disk st (cache_fname f) \<noteq> Some OtherFile"
      "(case disk st (cache_fname f) of Some (Npz t) \<Rightarrow> t | _ \<Rightarrow> interpolate_healpix_map e tbl)
         = (ra_int, dec_int, prob_int)"
    and dr: "disk st (cache_fname f) = None \<Longrightarrow> isdir e (parent_dir (savez_path (cache_fname f)))"
    and rl: "roll_loop (rotate_grid gmst ra_int, prob_int) = Some (Inr (ra_r, prob_r))"
    and lv: "prb68 (sd_cumul tbl) < length (sd_prob tbl)"
  shows "process_event e cspecs label st f = Some (Inl NameError)"
proof -
  define area where "area = real (prb68 (sd_cumul tbl)) * pix_size"
  define st1 where "st1 = (if area > 64 then st\<lparr>flagged := flagged st @ [enum]\<rparr> else st)"
  define st2 where "st2 = st1\<lparr>linecolor := select_linecolor cmap area net (linecolor st1)\<rparr>"
  have lc1: "linecolor st1 = linecolor st" by (simp add: st1_def)
  have d2: "disk st2 = disk st" by (simp add: st2_def st1_def)
  have ca2: "disk st2 (cache_fname f) \<noteq> Some OtherFile" using ca(1) by (simp add: d2)
  have dr2: "disk st2 (cache_fname f) = None \<Longrightarrow> isdir e (parent_dir (savez_path (cache_fname f)))"
    using dr by (simp add: d2)
  from get_or_compute_ok[of st2 f e tbl, OF ca2 dr2] ca(2) d2
  obtain st3 where g: "get_or_compute e st2 f tbl = Inr ((ra_int, dec_int, prob_int), st3)"
    and st3: "linecolor st3 = linecolor st2"
    by auto
  have l3: "linecolor st3 = None" using st3 lc lc1 by (simp add: st2_def area_def)
  have de: "draw_and_emit e label st3 gmst tbl area net (ra_r, dec_int, prob_r) = Inl NameError"
    using lv l3 by (simp add: draw_and_emit_def split: prod.splits)
  show ?thesis
    using vs snr cs g rl de
    by (simp add: process_event_def Let_def area_def[symmetric] st1_def[symmetric] st2_def[symmetric])
qed

lemma ex_cspecs_B: "ex_cspecs ''B'' = Some \<lparr>p_colors = ''yellow'', p_quant = None, p_norm = None\<rparr>"
  by (simp add: ex_cspecs_def)

lemma ex_run_n1_first:
  "process_event ex_env ex_cspecs ''B'' (initial_state ex_disk) ''b/1/p/n1.fits.gz'' = Some (Inl NameError)"
proof -
  let ?f = "''b/1/p/n1.fits.gz''" and ?st = "initial_state ex_disk"
  obtain snrs where snr: "read_snr ex_env ?f = Inr snrs" "snrs ''Network'' = Some 12"
    using ex_snr_n1 by blast
  have lc: "select_linecolor \<lparr>p_colors = ''yellow'', p_quant = None, p_norm = None\<rparr>
      (real (prb68 (sd_cumul ex_table)) * 3438) 12 (linecolor ?st) = None"
    by (simp add: select_linecolor_def initial_state_def)
  have ca: "disk ?st (cache_fname ?f) \<noteq> Some OtherFile"
    "(case disk ?st (cache_fname ?f) of Some (Npz t) \<Rightarrow> t | _ \<Rightarrow> interpolate_healpix_map ex_env ex_table)
      = ([[0, 6, 12, 18], [0, 6, 12, 18]], [[- 45, - 45, - 45, - 45], [45, 45, 45, 45]],
      [[1, 2, 3, 4], [5, 9, 7, 8]])"
    by (simp_all add: initial_state_def ex_disk_miss ex_interp)
  show ?thesis
    by (rule process_event_unbound_linecolor[where snrs=snrs and cspecs=ex_cspecs and label="''B''",
          OF ex_vital_n1 snr ex_cspecs_B lc ca ex_isdir(2) ex_roll_rot ex_level])
qed

lemma ex_run_n1_after_m1:
  assumes "linecolor st = Some (ColorName ''red'')"
    and "disk st = ex_disk(''a/1/p/m1.intrp.npz'' \<mapsto> Npz t0)"
  shows "\<exists>st'. process_event ex_env ex_cspecs ''B'' st ''b/1/p/n1.fits.gz'' = Some (Inr st') \<and>
     config_information st' = (config_information st)(''B'' := config_information st ''B'' @ [(3438, 12, 121 / 3)]) \<and>
     contours st' = contours st @ [(3 / 10, ColorName ''red'')]"
proof -
  let ?f = "''b/1/p/n1.fits.gz''"
  obtain snrs where snr: "read_snr ex_env ?f = Inr snrs" "snrs ''Network'' = Some 12"
    using ex_snr_n1 by blast
  have lc: "select_linecolor \<lparr>p_colors = ''yellow'', p_quant = None, p_norm = None\<rparr>
      (real (prb68 (sd_cumul ex_table)) * 3438) 12 (linecolor st) = Some (ColorName ''red'')"
    using assms(1) by (simp add: select_linecolor_def)
  have ca: "disk st (cache_fname ?f) \<noteq> Some OtherFile"
    "(case disk st (cache_fname ?f) of Some (Npz t) \<Rightarrow> t | _ \<Rightarrow> interpolate_healpix_map ex_env ex_table)
      = ([[0, 6, 12, 18], [0, 6, 12, 18]], [[- 45, - 45, - 45, - 45], [45, 45, 45, 45]],
      [[1, 2, 3, 4], [5, 9, 7, 8]])"
    by (simp_all add: assms(2) ex_cache_n1 ex_disk_npz ex_interp)
  from process_event_success[where snrs=snrs and cspecs=ex_cspecs and label="''B''",
      OF ex_vital_n1 snr ex_cspecs_B lc ca ex_isdir(2) ex_roll_rot ex_level ex_proj ex_argmax ex_peak]
  show ?thesis
    by (auto simp: ex_antenna ex_level_val_Suc ex_prb68)
qed

text \<open>
  C10, on the small run.  Label \<open>B\<close> has the bare colour \<open>yellow\<close>, which its \<open>Plottable\<close>
  returns for any value.  Lines 252--255 assign \<open>linecolor\<close> under the two quantities
  only.  When \<open>B\<close> is the only label, its first event raises NameError at the contour
  call.  When an event of label \<open>A\<close> comes first, the first event under \<open>B\<close> does not
  fail: it is drawn in the red that event left in \<open>linecolor\<close>, and is recorded.
\<close>

theorem bare_colour_never_drawn:
  "parse_colorspecs (get_cmap ex_env) [''A=snr,red'', ''B=yellow''] Map.empty = Inr ex_cspecs \<and>
   ex_cspecs ''B'' = Some \<lparr>p_colors = ''yellow'', p_quant = None, p_norm = None\<rparr> \<and>
   plottable_call \<lparr>p_colors = ''yellow'', p_quant = None, p_norm = None\<rparr> 12 = ColorName ''yellow'' \<and>
   run_batch ex_env [''A=snr,red'', ''B=yellow''] [(''B'', ''b/*'')] ex_disk = Some (Inl NameError) \<and>
   (case run_batch ex_env [''A=snr,red'', ''B=yellow''] [(''A'', ''a/1/*''), (''B'', ''b/*'')] ex_disk of
      Some (Inr st) \<Rightarrow>
        contours st = [(3 / 10, ColorName ''red''), (3 / 10, ColorName ''red'')] \<and>
        config_information st ''A'' = [(3438, 12, 121 / 3)] \<and>
        config_information st ''B'' = [(3438, 12, 121 / 3)]
    | _ \<Rightarrow> False)"
proof -
  have a: "run_batch ex_env [''A=snr,red'', ''B=yellow''] [(''B'', ''b/*'')] ex_disk = Some (Inl NameError)"
    using ex_run_n1_first by (simp add: run_batch_def ex_parse ex_glob del: parse_colorspecs.simps)
  from ex_run_m1 obtain st1 where st1:
    "process_event ex_env ex_cspecs ''A'' (initial_state ex_disk) ''a/1/p/m1.fits.gz'' = Some (Inr st1)"
    "config_information st1 = (\<lambda>_. [])(''A'' := [(3438, 12, 121 / 3)])"
    "contours st1 = [(3 / 10, ColorName ''red'')]"
    "linecolor st1 = Some (ColorName ''red'')"
    "disk st1 = ex_disk(''a/1/p/m1.intrp.npz'' \<mapsto> Npz (interpolate_healpix_map ex_env ex_table))"
    by blast
  from ex_run_n1_after_m1[OF st1(4,5)] obtain st2 where st2:
    "process_event ex_env ex_cspecs ''B'' st1 ''b/1/p/n1.fits.gz'' = Some (Inr st2)"
    "config_information st2 = (config_information st1)(''B'' := config_information st1 ''B'' @ [(3438, 12, 121 / 3)])"
    "contours st2 = contours st1 @ [(3 / 10, ColorName ''red'')]"
    by blast
  have "run_batch ex_env [''A=snr,red'', ''B=yellow''] [(''A'', ''a/1/*''), (''B'', ''b/*'')] ex_disk
          = Some (Inr st2)"
    using st1(1) st2(1) by (simp add: run_batch_def ex_parse ex_glob del: parse_colorspecs.simps)
  then have b: "(case run_batch ex_env [''A=snr,red'', ''B=yellow''] [(''A'', ''a/1/*''), (''B'', ''b/*'')] ex_disk of
      Some (Inr st) \<Rightarrow>
        contours st = [(3 / 10, ColorName ''red''), (3 / 10, ColorName ''red'')] \<and>
        config_information st ''A'' = [(3438, 12, 121 / 3)] \<and>
        config_information st ''B'' = [(3438, 12, 121 / 3)]
    | _ \<Rightarrow> False)"
    using st1(2,3) st2(2,3) by simp
  show ?thesis using a b ex_cspecs_B ex_parse by (simp add: plottable_call_def del: parse_colorspecs.simps)
qed

end
